theory Spec2Isabelle
  imports Complex_Main
begin

section \<open>Decimal arithmetic\<close>

text \<open>
  The quote engine computes with \<^verbatim>\<open>decimal.js\<close> values.  A finite Decimal denotes a
  number; the result of every arithmetic operation is rounded to the working
  precision of the library, a number \<open>p\<close> of significant digits (20 unless the
  library is configured otherwise; \<^verbatim>\<open>quote-engine.js\<close> does not configure it),
  with ties rounded away from zero (ROUND_HALF_UP).  The constructor itself keeps
  every digit of its argument.  The precision is a parameter of the model.
\<close>

fun ndigits :: "nat \<Rightarrow> nat" where
  "ndigits n = (if n < 10 then 1 else Suc (ndigits (n div 10)))"

declare ndigits.simps [simp del]

text \<open>The decimal exponent \<open>e\<close> of a positive number: \<open>10^e \<le> x < 10^(e+1)\<close>.\<close>

definition expo10 :: "real \<Rightarrow> int" where
  "expo10 x =
     (if 1 \<le> x then int (ndigits (nat \<lfloor>x\<rfloor>)) - 1
      else - int (ndigits (nat (\<lceil>1 / x\<rceil> - 1))))"

text \<open>Rounding to \<open>p\<close> significant digits, half away from zero.\<close>

definition rd :: "nat \<Rightarrow> real \<Rightarrow> real" where
  "rd p x =
     (if x = 0 then 0
      else let u = 10 powi (expo10 \<bar>x\<bar> - int p + 1)
           in sgn x * of_int \<lfloor>\<bar>x\<bar> / u + 1 / 2\<rfloor> * u)"

text \<open>
  A Decimal is a finite number, NaN or an infinity.  The two zeros of the library
  compare equal and are both \<open>Fin 0\<close>; the model never divides by a computed zero,
  the only place where their sign would show.
\<close>

datatype decimal = Fin real | NaN | PInf | NInf

fun dec_neg :: "decimal \<Rightarrow> decimal" where
  "dec_neg (Fin a) = Fin (- a)"
| "dec_neg NaN = NaN"
| "dec_neg PInf = NInf"
| "dec_neg NInf = PInf"

fun dec_sign :: "decimal \<Rightarrow> real" where
  "dec_sign (Fin a) = sgn a"
| "dec_sign NaN = 0"
| "dec_sign PInf = 1"
| "dec_sign NInf = - 1"

definition inf_of_sign :: "real \<Rightarrow> decimal" where
  "inf_of_sign s = (if s < 0 then NInf else PInf)"

fun dec_mul :: "nat \<Rightarrow> decimal \<Rightarrow> decimal \<Rightarrow> decimal" where
  "dec_mul p (Fin a) (Fin b) = Fin (rd p (a * b))"
| "dec_mul p NaN y = NaN"
| "dec_mul p x NaN = NaN"
| "dec_mul p x y =
     (if dec_sign x = 0 \<or> dec_sign y = 0 then NaN
      else inf_of_sign (dec_sign x * dec_sign y))"

fun dec_div :: "nat \<Rightarrow> decimal \<Rightarrow> decimal \<Rightarrow> decimal" where
  "dec_div p (Fin a) (Fin b) =
     (if b = 0 then (if a = 0 then NaN else inf_of_sign a)
      else Fin (rd p (a / b)))"
| "dec_div p NaN y = NaN"
| "dec_div p x NaN = NaN"
| "dec_div p (Fin a) y = Fin 0"
| "dec_div p x (Fin b) = inf_of_sign (dec_sign x * (if b < 0 then - 1 else 1))"
| "dec_div p x y = NaN"

fun dec_add :: "nat \<Rightarrow> decimal \<Rightarrow> decimal \<Rightarrow> decimal" where
  "dec_add p (Fin a) (Fin b) = Fin (rd p (a + b))"
| "dec_add p NaN y = NaN"
| "dec_add p x NaN = NaN"
| "dec_add p PInf NInf = NaN"
| "dec_add p NInf PInf = NaN"
| "dec_add p (Fin a) y = y"
| "dec_add p x y = x"

definition dec_sub :: "nat \<Rightarrow> decimal \<Rightarrow> decimal \<Rightarrow> decimal" where
  "dec_sub p x y = dec_add p x (dec_neg y)"

text \<open>Comparisons: every comparison with NaN is false.\<close>

fun dec_lt :: "decimal \<Rightarrow> decimal \<Rightarrow> bool" where
  "dec_lt (Fin a) (Fin b) = (a < b)"
| "dec_lt NaN y = False"
| "dec_lt x NaN = False"
| "dec_lt x PInf = (x \<noteq> PInf)"
| "dec_lt NInf y = (y \<noteq> NInf)"
| "dec_lt x y = False"

definition dec_gt :: "decimal \<Rightarrow> decimal \<Rightarrow> bool" where
  "dec_gt x y = dec_lt y x"

definition dec_eq :: "decimal \<Rightarrow> decimal \<Rightarrow> bool" where
  "dec_eq x y = (x \<noteq> NaN \<and> x = y)"

definition dec_lte :: "decimal \<Rightarrow> decimal \<Rightarrow> bool" where
  "dec_lte x y = (dec_lt x y \<or> dec_eq x y)"

fun dec_floor :: "decimal \<Rightarrow> decimal" where
  "dec_floor (Fin a) = Fin (of_int \<lfloor>a\<rfloor>)"
| "dec_floor x = x"

text \<open>
  \<^verbatim>\<open>x.pow(y)\<close>.  A zero or non-finite operand is handled by the library through
  \<^verbatim>\<open>Math.pow\<close>; a base of one is returned as it is; a negative base with a
  non-integer exponent gives NaN.  Otherwise the library evaluates
  \<open>exp (y * ln x)\<close> with guard digits and rounds to the working precision: the
  model takes the power rounded to \<open>p\<close> digits.
\<close>

fun dec_pow :: "nat \<Rightarrow> decimal \<Rightarrow> decimal \<Rightarrow> decimal" where
  "dec_pow p (Fin x) (Fin y) =
     (if y = 0 then Fin 1
      else if x = 0 then (if 0 < y then Fin 0 else PInf)
      else if x = 1 then Fin 1
      else if 0 < x then Fin (rd p (x powr y))
      else if y \<in> \<int> then Fin (rd p (x powi \<lfloor>y\<rfloor>))
      else NaN)"
| "dec_pow p x (Fin y) =
     (if y = 0 then Fin 1
      else if x = NaN then NaN
      else if y < 0 then Fin 0
      else if x = NInf \<and> y \<in> \<int> \<and> odd \<lfloor>y\<rfloor> then NInf
      else PInf)"
| "dec_pow p x PInf =
     (if x = NaN then NaN
      else if dec_lt (Fin 1) x \<or> dec_lt x (Fin (- 1)) then PInf
      else if x = Fin 1 \<or> x = Fin (- 1) then NaN
      else Fin 0)"
| "dec_pow p x NInf =
     (if x = NaN then NaN
      else if dec_lt (Fin 1) x \<or> dec_lt x (Fin (- 1)) then Fin 0
      else if x = Fin 1 \<or> x = Fin (- 1) then NaN
      else PInf)"
| "dec_pow p x NaN = NaN"

section \<open>The quote engine\<close>

text \<open>\<^verbatim>\<open>quote-engine.js\<close>, lines 10 to 12.\<close>

definition DAYS_PER_YEAR :: decimal where
  "DAYS_PER_YEAR = Fin (36525 / 100)"

definition CONTRACT_CAPACITY_LIMIT_PERCENT :: decimal where
  "CONTRACT_CAPACITY_LIMIT_PERCENT = Fin (2 / 10)"

definition COVER_PRICE_SURPLUS_MARGIN :: decimal where
  "COVER_PRICE_SURPLUS_MARGIN = Fin (3 / 10)"

text \<open>
  Modelled from the spec: \<^verbatim>\<open>utils.min\<close> and \<^verbatim>\<open>utils.max\<close> of \<^verbatim>\<open>src/utils.js\<close>, which is
  not among the sources.  The spec calls them the min/max helpers of the decimal
  utilities: the smaller and the larger of two Decimals.  With a NaN operand the result
  is taken to be NaN; only the lemma \<open>calculateRisk_negative\<close> depends on that case.
\<close>

definition utils_min :: "decimal \<Rightarrow> decimal \<Rightarrow> decimal" where
  "utils_min a b = (if a = NaN \<or> b = NaN then NaN else if dec_lt b a then b else a)"

definition utils_max :: "decimal \<Rightarrow> decimal \<Rightarrow> decimal" where
  "utils_max a b = (if a = NaN \<or> b = NaN then NaN else if dec_gt b a then b else a)"

subsection \<open>Capacity, price and risk\<close>

definition calculateCapacity :: "nat \<Rightarrow> decimal \<Rightarrow> decimal \<Rightarrow> decimal \<Rightarrow> decimal" where
  "calculateCapacity p stakedNxm nxmPriceEth minCapETH =
     (let maxGlobalCapacityPerContract = dec_mul p minCapETH CONTRACT_CAPACITY_LIMIT_PERCENT;
          stakedNxmEthValue = dec_div p (dec_mul p stakedNxm nxmPriceEth) (Fin (10 ^ 18))
      in utils_min stakedNxmEthValue maxGlobalCapacityPerContract)"

text \<open>The cover period is a JavaScript number; \<^verbatim>\<open>mul\<close> reads it as a Decimal.\<close>

definition calculatePrice :: "nat \<Rightarrow> decimal \<Rightarrow> decimal \<Rightarrow> decimal \<Rightarrow> real \<Rightarrow> decimal" where
  "calculatePrice p coverAmount risk surplusMargin coverPeriod =
     (let surplusMultiplier = dec_add p surplusMargin (Fin 1);
          pricePerDay =
            dec_div p
              (dec_mul p (dec_div p (dec_mul p coverAmount risk) (Fin 100)) surplusMultiplier)
              DAYS_PER_YEAR
      in dec_mul p pricePerDay (Fin coverPeriod))"

definition calculateRisk :: "nat \<Rightarrow> decimal \<Rightarrow> decimal" where
  "calculateRisk p netStakedNxm =
     (let STAKED_HIGH_RISK_COST = Fin 100;
          LOW_RISK_COST_LIMIT_NXM = dec_mul p (Fin 200000) (Fin (10 ^ 18));
          PRICING_EXPONENT = Fin 7;
          STAKED_LOW_RISK_COST = Fin 1;
          exponent = dec_div p (Fin 1) PRICING_EXPONENT;
          uncappedRiskCost =
            dec_mul p STAKED_HIGH_RISK_COST
              (dec_sub p (Fin 1)
                 (dec_pow p (dec_div p netStakedNxm LOW_RISK_COST_LIMIT_NXM) exponent));
          riskCost = utils_max STAKED_LOW_RISK_COST uncappedRiskCost
      in riskCost)"

subsection \<open>Net staked collateral\<close>

text \<open>
  \<^verbatim>\<open>getNetStakedNxm\<close> on the values its three chain reads returned: the contract's
  stake, the \<^verbatim>\<open>unstakeAt\<close> of the first unprocessed unstake request and the unstake
  requests of the contract (\<^verbatim>\<open>unstakeAt\<close>, \<^verbatim>\<open>amount\<close>), all unsigned integers.  The
  source compares the times after \<^verbatim>\<open>toNumber()\<close>, which fails from \<open>2^53\<close> on; the model
  compares them as they are, which is the same for every time below that.
\<close>

definition getNetStakedNxm :: "nat \<Rightarrow> nat \<Rightarrow> nat \<Rightarrow> (nat \<times> nat) list \<Rightarrow> decimal" where
  "getNetStakedNxm p stakedNxmBN firstUnprocessedUnstakeAt unstakeRequests =
     (let stakedNxm = Fin (of_nat stakedNxmBN);
          totalUnprocessedUnstakeBN =
            foldl (\<lambda>a b. a + b) 0
              (map snd (filter (\<lambda>e. fst e \<ge> firstUnprocessedUnstakeAt) unstakeRequests));
          totalUnprocessedUnstake = Fin (of_nat totalUnprocessedUnstakeBN);
          netStakedNxm = dec_sub p stakedNxm totalUnprocessedUnstake
      in netStakedNxm)"

subsection \<open>Quotes\<close>

text \<open>
  The two shapes \<^verbatim>\<open>calculateQuote\<close> returns.  \<^verbatim>\<open>now.getTime()\<close> is an integer number
  of milliseconds, at most \<open>8.64 * 10^15\<close> in magnitude for a valid date; on that range
  the double-precision \<^verbatim>\<open>generatedAt / 1000 + 3600\<close> never crosses an integer, so
  \<^verbatim>\<open>Math.ceil\<close> of it is the ceiling of the exact value.
\<close>

datatype quote =
    QuoteUncoverable (error: string) (generatedAt: int) (expiresAt: int)
  | QuoteCoverable (currency: string) (period: real) (amount: decimal) (price: decimal)
      (priceInNXM: decimal) (expiresAt: int) (generatedAt: int)

definition calculateQuote ::
  "nat \<Rightarrow> decimal \<Rightarrow> real \<Rightarrow> string \<Rightarrow> decimal \<Rightarrow> decimal \<Rightarrow> decimal \<Rightarrow> decimal \<Rightarrow> int \<Rightarrow> quote" where
  "calculateQuote p requestedCoverAmount period' currency' coverCurrencyRate nxmPrice
       netStakedNxm minCapETH now =
     (let generatedAt' = now;
          expiresAt' = \<lceil>real_of_int generatedAt' / 1000 + 3600\<rceil>
      in if dec_eq netStakedNxm (Fin 0)
         then QuoteUncoverable ''Uncoverable'' generatedAt' expiresAt'
         else
           let maxCapacity = calculateCapacity p netStakedNxm nxmPrice minCapETH;
               requestedCoverAmountInWei = dec_mul p requestedCoverAmount coverCurrencyRate;
               finalCoverAmountInWei = utils_min maxCapacity requestedCoverAmountInWei;
               risk = calculateRisk p netStakedNxm;
               quotePriceInWei =
                 calculatePrice p finalCoverAmountInWei risk COVER_PRICE_SURPLUS_MARGIN period';
               quotePriceInCoverCurrencyWei =
                 dec_mul p (dec_div p quotePriceInWei coverCurrencyRate) (Fin (10 ^ 18));
               quotePriceInNxmWei =
                 dec_mul p (dec_div p quotePriceInWei nxmPrice) (Fin (10 ^ 18));
               finalCoverInCoverCurrency = dec_div p finalCoverAmountInWei coverCurrencyRate
           in QuoteCoverable currency' period' finalCoverInCoverCurrency
                quotePriceInCoverCurrencyWei quotePriceInNxmWei expiresAt' generatedAt')"

subsection \<open>Signing\<close>

text \<open>
  \<^verbatim>\<open>decimalToBN\<close> is \<^verbatim>\<open>new BN(value.floor().toString())\<close>.  \<^verbatim>\<open>toString\<close> prints a Decimal
  in plain digits only below the library's exponent threshold \<^verbatim>\<open>toExpPos\<close> (21 unless
  configured; the source relies on it when it logs with \<^verbatim>\<open>toFixed()\<close> instead): from
  \<open>10^21\<close> on it prints exponential notation such as \<^verbatim>\<open>5.32922e+21\<close>, and \<^verbatim>\<open>NaN\<close> and
  \<^verbatim>\<open>Infinity\<close> print as words.  \<^verbatim>\<open>bn.js\<close> reads decimal digits with an optional sign;
  for any other text it fails or returns an unrelated number, depending on its
  version: \<open>BNInvalid\<close>.
\<close>

datatype bn = BN int | BNInvalid

definition toExpPos :: nat where
  "toExpPos = 21"

fun decimalToBN :: "decimal \<Rightarrow> bn" where
  "decimalToBN (Fin a) = (if \<bar>\<lfloor>a\<rfloor>\<bar> < 10 ^ toExpPos then BN \<lfloor>a\<rfloor> else BNInvalid)"
| "decimalToBN x = BNInvalid"

text \<open>
  \<^verbatim>\<open>new BN(n)\<close> for a JavaScript number keeps the integer part of a number below
  \<open>2^53\<close> and fails its assertion from there on.
\<close>

definition bn_of_number :: "real \<Rightarrow> bn" where
  "bn_of_number x =
     (if \<bar>x\<bar> < 2 ^ 53 then BN (if 0 \<le> x then \<lfloor>x\<rfloor> else - \<lfloor>- x\<rfloor>) else BNInvalid)"

definition hex_digit :: "nat \<Rightarrow> char" where
  "hex_digit n = ''0123456789abcdef'' ! n"

definition hex_of_string :: "string \<Rightarrow> string" where
  "hex_of_string s =
     concat (map (\<lambda>c. [hex_digit (of_char c div 16), hex_digit (of_char c mod 16)]) s)"

text \<open>A value handed to \<^verbatim>\<open>soliditySHA3\<close>: a big number or a text.\<close>

datatype sol_value = SolBN bn | SolText string

text \<open>
  The two cryptographic primitives under \<^verbatim>\<open>ethereumjs-abi\<close> and \<^verbatim>\<open>ethereumjs-util\<close> are
  parameters: the hash \<^verbatim>\<open>keccak256\<close> of a buffer and the signature \<open>(v, r, s)\<close> of a
  hash under a key, \<open>r\<close> and \<open>s\<close> buffers of 32 bytes.  A buffer is the list of its
  bytes, numbers below 256.
\<close>

type_synonym buffer = "nat list"

record eth_lib =
  keccak256 :: "buffer \<Rightarrow> buffer"
  ecsign :: "buffer \<Rightarrow> string \<Rightarrow> nat \<times> buffer \<times> buffer"

text \<open>The object \<^verbatim>\<open>{ v, r, s }\<close> that \<^verbatim>\<open>signQuote\<close> returns.\<close>

record signature =
  sig_v :: nat
  sig_r :: string
  sig_s :: string

datatype js_error =
    InvalidParameters "string list" | UnsupportedCurrency string | TypeError | LibraryError string

text \<open>
  The object \<^verbatim>\<open>{ ...quoteData, contract }\<close> that \<^verbatim>\<open>getQuote\<close> signs and returns.
\<close>

record unsigned_quote =
  quoteData :: quote
  contract :: string

text \<open>
  The list \<^verbatim>\<open>orderParts\<close> of \<^verbatim>\<open>signQuote\<close>.  On the uncoverable shape
  \<^verbatim>\<open>quotationData.currency\<close> is undefined and \<^verbatim>\<open>Buffer.from(undefined, 'utf8')\<close>, the first
  statement of \<^verbatim>\<open>signQuote\<close>, throws a TypeError.
\<close>

fun orderParts :: "unsigned_quote \<Rightarrow> string \<Rightarrow> js_error + (sol_value \<times> string) list" where
  "orderParts quotationData quotationContractAddress =
     (case quoteData quotationData of
        QuoteUncoverable e g x \<Rightarrow> Inl TypeError
      | QuoteCoverable currency' period' amount' price' priceInNXM' expiresAt' generatedAt' \<Rightarrow>
          let currency'' = ''0x'' @ hex_of_string currency' in
          Inr [ (SolBN (decimalToBN amount'), ''uint''),
                (SolText currency'', ''bytes4''),
                (SolBN (bn_of_number period'), ''uint16''),
                (SolText (contract quotationData), ''address''),
                (SolBN (decimalToBN price'), ''uint''),
                (SolBN (decimalToBN priceInNXM'), ''uint''),
                (SolBN (bn_of_number (real_of_int expiresAt')), ''uint''),
                (SolBN (bn_of_number (real_of_int generatedAt')), ''uint''),
                (SolText quotationContractAddress, ''address'') ])"

text \<open>
  \<^verbatim>\<open>ethereumjs-util\<close>: texts and buffers.  \<^verbatim>\<open>toBuffer\<close> reads a text only when it is
  \<^verbatim>\<open>0x\<close> followed by hexadecimal digits, and a big number as the bytes of its
  magnitude.
\<close>

definition toString_hex :: "buffer \<Rightarrow> string" where
  "toString_hex bs = concat (map (\<lambda>b. [hex_digit (b div 16), hex_digit (b mod 16)]) bs)"

definition hex_value :: "char \<Rightarrow> nat option" where
  "hex_value c =
     map_of
       (zip ''0123456789abcdefABCDEF''
          [0, 1, 2, 3, 4, 5, 6, 7, 8, 9, 10, 11, 12, 13, 14, 15, 10, 11, 12, 13, 14, 15])
       c"

fun bytes_of_hex :: "string \<Rightarrow> buffer option" where
  "bytes_of_hex [] = Some []"
| "bytes_of_hex [c] = None"
| "bytes_of_hex (c # d # cs) =
     (case hex_value c of
        None \<Rightarrow> None
      | Some x \<Rightarrow>
          (case hex_value d of
             None \<Rightarrow> None
           | Some y \<Rightarrow> map_option ((#) (16 * x + y)) (bytes_of_hex cs)))"

definition isHexString :: "string \<Rightarrow> bool" where
  "isHexString v = (take 2 v = ''0x'' \<and> list_all (\<lambda>c. hex_value c \<noteq> None) (drop 2 v))"

definition padToEven :: "string \<Rightarrow> string" where
  "padToEven a = (if odd (length a) then CHR ''0'' # a else a)"

fun byteLength :: "nat \<Rightarrow> nat" where
  "byteLength n = (if n = 0 then 0 else Suc (byteLength (n div 256)))"

declare byteLength.simps [simp del]

text \<open>\<^verbatim>\<open>toArrayLike(Buffer, 'be', k)\<close>: the \<open>k\<close> low bytes, the most significant first.\<close>

fun be_bytes :: "nat \<Rightarrow> nat \<Rightarrow> buffer" where
  "be_bytes 0 n = []"
| "be_bytes (Suc k) n = be_bytes k (n div 256) @ [n mod 256]"

definition toArray :: "nat \<Rightarrow> buffer" where
  "toArray n = be_bytes (max 1 (byteLength n)) n"

definition nat_of_be :: "buffer \<Rightarrow> nat" where
  "nat_of_be bs = foldl (\<lambda>a b. 256 * a + b) 0 bs"

definition toBuffer :: "sol_value \<Rightarrow> js_error + buffer" where
  "toBuffer v =
     (case v of
        SolText t \<Rightarrow>
          if isHexString t
          then (case bytes_of_hex (padToEven (drop 2 t)) of
                  None \<Rightarrow> Inl TypeError
                | Some b \<Rightarrow> Inr b)
          else Inl (LibraryError ''Cannot convert string to buffer'')
      | SolBN (BN n) \<Rightarrow> Inr (toArray (nat \<bar>n\<bar>))
      | SolBN BNInvalid \<Rightarrow> Inl (LibraryError ''Invalid number''))"

definition setLengthLeft :: "buffer \<Rightarrow> nat \<Rightarrow> buffer" where
  "setLengthLeft msg n =
     (if length msg < n then replicate (n - length msg) 0 @ msg
      else drop (length msg - n) msg)"

definition setLengthRight :: "buffer \<Rightarrow> nat \<Rightarrow> buffer" where
  "setLengthRight msg n =
     (if length msg < n then msg @ replicate (n - length msg) 0
      else take n msg)"

text \<open>
  \<^verbatim>\<open>fromSigned\<close> reads a buffer of 32 bytes as a number in two's complement and
  \<^verbatim>\<open>toUnsigned\<close> writes a number back as the bytes of its two's complement, without
  leading zero bytes.
\<close>

definition fromSigned :: "buffer \<Rightarrow> int" where
  "fromSigned num =
     (let n = int (nat_of_be num)
      in if n div 2 ^ 255 mod 2 = 1 then n - 2 ^ 256 else n)"

definition toUnsigned :: "int \<Rightarrow> buffer" where
  "toUnsigned num = toArray (nat (if num < 0 then 2 ^ 256 + num else num))"

fun string_of_nat :: "nat \<Rightarrow> string" where
  "string_of_nat n =
     (if n < 10 then [char_of (48 + n)]
      else string_of_nat (n div 10) @ [char_of (48 + n mod 10)])"

declare string_of_nat.simps [simp del]

text \<open>
  \<^verbatim>\<open>hashPersonalMessage\<close>: the hash of the byte \<open>0x19\<close>, the text
  \<^verbatim>\<open>Ethereum Signed Message:\<close>, a line feed, the length of the message in decimal
  digits and the message.
\<close>

definition hashPersonalMessage :: "eth_lib \<Rightarrow> buffer \<Rightarrow> buffer" where
  "hashPersonalMessage lib message =
     (let prefix =
            map of_char
              (CHR 0x19 # ''Ethereum Signed Message:'' @ CHR 0x0A # string_of_nat (length message))
      in keccak256 lib (prefix @ message))"

text \<open>
  \<^verbatim>\<open>ethereumjs-abi\<close>: the packed encoding, for the types \<^verbatim>\<open>signQuote\<close> uses.  An
  address is set to 20 bytes from the left, \<^verbatim>\<open>bytesN\<close> to \<open>N\<close> bytes from the right,
  and \<^verbatim>\<open>uintN\<close> is the magnitude of the number in \<open>N / 8\<close> bytes.  The library's
  other types (arrays, \<^verbatim>\<open>bytes\<close>, \<^verbatim>\<open>string\<close>, \<^verbatim>\<open>bool\<close>, \<^verbatim>\<open>intN\<close>) are not among those of
  \<^verbatim>\<open>orderParts\<close> and end in the last branch here.  A number that \<^verbatim>\<open>bn.js\<close> could not
  read is an error.
\<close>

definition elementaryName :: "string \<Rightarrow> string" where
  "elementaryName name =
     (if name = ''uint'' then ''uint256'' else if name = ''int'' then ''int256'' else name)"

definition parseTypeN :: "string \<Rightarrow> nat" where
  "parseTypeN type' =
     foldl (\<lambda>n c. 10 * n + (of_char c - 48)) 0
       (dropWhile (\<lambda>c. c \<notin> set ''0123456789'') type')"

definition parseNumber :: "sol_value \<Rightarrow> bn" where
  "parseNumber arg =
     (case arg of
        SolBN b \<Rightarrow> b
      | SolText t \<Rightarrow>
          if isHexString t
          then (case bytes_of_hex (padToEven (drop 2 t)) of
                  None \<Rightarrow> BNInvalid
                | Some b \<Rightarrow> BN (int (nat_of_be b)))
          else if t \<noteq> [] \<and> set t \<subseteq> set ''0123456789''
          then BN (int (foldl (\<lambda>n c. 10 * n + (of_char c - 48)) 0 t))
          else BNInvalid)"

definition solidityHexValue :: "string \<Rightarrow> sol_value \<Rightarrow> js_error + buffer" where
  "solidityHexValue type' value =
     (if type' = ''address''
      then map_sum id (\<lambda>b. setLengthLeft b 20) (toBuffer value)
      else if take 5 type' = ''bytes'' \<and> type' \<noteq> ''bytes''
      then
        let size' = parseTypeN type' in
        if size' < 1 \<or> 32 < size' then Inl (LibraryError ''Invalid bytes width'')
        else map_sum id (\<lambda>b. setLengthRight b size') (toBuffer value)
      else if take 4 type' = ''uint''
      then
        let size' = parseTypeN type' in
        if size' mod 8 \<noteq> 0 \<or> size' < 8 \<or> 256 < size'
        then Inl (LibraryError ''Invalid uint width'')
        else
          (case parseNumber value of
             BNInvalid \<Rightarrow> Inl (LibraryError ''Invalid number'')
           | BN n \<Rightarrow>
               if 2 ^ size' \<le> \<bar>n\<bar> then Inl (LibraryError ''Supplied uint exceeds width'')
               else Inr (be_bytes (size' div 8) (nat \<bar>n\<bar>)))
      else Inl (LibraryError ''Unsupported or invalid type''))"

fun solidityPack :: "string list \<Rightarrow> sol_value list \<Rightarrow> js_error + buffer" where
  "solidityPack [] [] = Inr []"
| "solidityPack (t # ts) (v # vs) =
     (case solidityHexValue (elementaryName t) v of
        Inl e \<Rightarrow> Inl e
      | Inr b \<Rightarrow>
          (case solidityPack ts vs of
             Inl e \<Rightarrow> Inl e
           | Inr bs \<Rightarrow> Inr (b @ bs)))"
| "solidityPack ts vs = Inl (LibraryError ''Number of types are not matching the values'')"

definition soliditySHA3 :: "eth_lib \<Rightarrow> string list \<Rightarrow> sol_value list \<Rightarrow> js_error + buffer" where
  "soliditySHA3 lib types values = map_sum id (keccak256 lib) (solidityPack types values)"

text \<open>\<^verbatim>\<open>signQuote\<close>, lines 167 to 192.\<close>

definition signQuote :: "eth_lib \<Rightarrow> unsigned_quote \<Rightarrow> string \<Rightarrow> string \<Rightarrow> js_error + signature" where
  "signQuote lib quotationData quotationContractAddress privateKeyString =
     (case orderParts quotationData quotationContractAddress of
        Inl e \<Rightarrow> Inl e
      | Inr parts \<Rightarrow>
          let types = map snd parts;
              values = map fst parts
          in case soliditySHA3 lib types values of
               Inl e \<Rightarrow> Inl e
             | Inr message \<Rightarrow>
                 let msgHash = hashPersonalMessage lib message;
                     sig = ecsign lib msgHash privateKeyString
                 in Inr \<lparr> sig_v = fst sig,
                          sig_r = ''0x'' @ toString_hex (toUnsigned (fromSigned (fst (snd sig)))),
                          sig_s = ''0x'' @ toString_hex (toUnsigned (fromSigned (snd (snd sig)))) \<rparr>)"

subsection \<open>Validation\<close>

text \<open>
  The regular expressions of the schema, with a matcher by derivatives.  Under the
  flag \<^verbatim>\<open>i\<close> JavaScript compares characters after mapping \<^verbatim>\<open>a\<close> to \<^verbatim>\<open>z\<close> to upper
  case; no character outside ASCII is mapped into ASCII.
\<close>

datatype rexp = Zero | One | Cls "char list" | Alt rexp rexp | Seq rexp rexp | Star rexp

definition canonicalize :: "char \<Rightarrow> char" where
  "canonicalize c =
     (case map_of (zip ''abcdefghijklmnopqrstuvwxyz'' ''ABCDEFGHIJKLMNOPQRSTUVWXYZ'') c of
        None \<Rightarrow> c
      | Some u \<Rightarrow> u)"

definition chr_in :: "bool \<Rightarrow> char \<Rightarrow> char list \<Rightarrow> bool" where
  "chr_in icase c cs =
     (if icase then canonicalize c \<in> set (map canonicalize cs) else c \<in> set cs)"

fun nullable :: "rexp \<Rightarrow> bool" where
  "nullable Zero = False"
| "nullable One = True"
| "nullable (Cls cs) = False"
| "nullable (Alt a b) = (nullable a \<or> nullable b)"
| "nullable (Seq a b) = (nullable a \<and> nullable b)"
| "nullable (Star a) = True"

fun der :: "bool \<Rightarrow> char \<Rightarrow> rexp \<Rightarrow> rexp" where
  "der i c Zero = Zero"
| "der i c One = Zero"
| "der i c (Cls cs) = (if chr_in i c cs then One else Zero)"
| "der i c (Alt a b) = Alt (der i c a) (der i c b)"
| "der i c (Seq a b) =
     (if nullable a then Alt (Seq (der i c a) b) (der i c b) else Seq (der i c a) b)"
| "der i c (Star a) = Seq (der i c a) (Star a)"

text \<open>\<^verbatim>\<open>/^r$/.test(s)\<close>: the whole of \<open>s\<close> matches \<open>r\<close>.\<close>

fun rmatch :: "bool \<Rightarrow> rexp \<Rightarrow> string \<Rightarrow> bool" where
  "rmatch i a [] = nullable a"
| "rmatch i a (c # cs) = rmatch i (der i c a) cs"

fun rep :: "nat \<Rightarrow> rexp \<Rightarrow> rexp" where
  "rep 0 a = One"
| "rep (Suc n) a = Seq a (rep n a)"

text \<open>\<^verbatim>\<open>/^0(x|X)[a-fA-F0-9]{40}$/i\<close> and \<^verbatim>\<open>/^\d+$/\<close>.\<close>

definition address_regex :: rexp where
  "address_regex =
     Seq (Cls ''0'') (Seq (Alt (Cls ''x'') (Cls ''X'')) (rep 40 (Cls ''abcdefABCDEF0123456789'')))"

definition amount_regex :: rexp where
  "amount_regex = Seq (Cls ''0123456789'') (Star (Cls ''0123456789''))"

text \<open>
  \<^verbatim>\<open>schema.validate(value)\<close> checks the keys in the order of the schema.  The source
  passes no options, so Joi's \<^verbatim>\<open>abortEarly\<close> has its default, true: validation stops
  at the first key that fails and the error's \<^verbatim>\<open>details\<close> hold that one entry.  The
  result is the list of the keys in \<^verbatim>\<open>details\<close>; the empty list is no error.
\<close>

definition joi_validate :: "bool \<Rightarrow> (string \<times> bool) list \<Rightarrow> string list" where
  "joi_validate abortEarly checks =
     (let failed = map fst (filter (\<lambda>kv. \<not> snd kv) checks)
      in if abortEarly then take 1 failed else failed)"

text \<open>
  The schema \<^verbatim>\<open>quoteSchema\<close>: each key with the outcome of its rules.  A Joi string
  is not empty; \<^verbatim>\<open>min(1)\<close> bounds its length.  The period is taken as the number Joi
  validates.
\<close>

definition quoteSchema :: "string \<Rightarrow> string \<Rightarrow> string \<Rightarrow> real \<Rightarrow> (string \<times> bool) list" where
  "quoteSchema contractAddress coverAmount currency' period' =
     [ (''contractAddress'', contractAddress \<noteq> [] \<and> rmatch True address_regex contractAddress),
       (''coverAmount'',
          coverAmount \<noteq> [] \<and> rmatch False amount_regex coverAmount \<and> 1 \<le> length coverAmount),
       (''currency'', currency' \<in> set [''ETH'', ''DAI'']),
       (''period'', 30 \<le> period' \<and> period' \<le> 365) ]"

definition validateQuoteParameters :: "string \<Rightarrow> string \<Rightarrow> string \<Rightarrow> real \<Rightarrow> string list" where
  "validateQuoteParameters contractAddress coverAmount currency' period' =
     joi_validate True (quoteSchema contractAddress coverAmount currency' period')"

subsection \<open>The request\<close>

text \<open>The values the chain reads of \<^verbatim>\<open>getQuote\<close> returned.\<close>

record chain_data =
  daiRate :: nat
  tokenPrice :: nat
  stakedNxmBN :: nat
  firstUnprocessedUnstakeAt :: nat
  unstakeRequests :: "(nat \<times> nat) list"
  lastMcrEth :: nat
  quotationAddress :: string

definition getCurrencyRate :: "chain_data \<Rightarrow> string \<Rightarrow> js_error + decimal" where
  "getCurrencyRate cd currency' =
     (if currency' = ''ETH'' then Inr (Fin (10 ^ 18))
      else if currency' = ''DAI'' then Inr (Fin (of_nat (daiRate cd)))
      else Inl (UnsupportedCurrency currency'))"

definition toUpperCase :: "string \<Rightarrow> string" where
  "toUpperCase = map canonicalize"

definition toLowerCase :: "string \<Rightarrow> string" where
  "toLowerCase =
     map (\<lambda>c. case map_of (zip ''ABCDEFGHIJKLMNOPQRSTUVWXYZ'' ''abcdefghijklmnopqrstuvwxyz'') c of
                None \<Rightarrow> c
              | Some l \<Rightarrow> l)"

text \<open>\<^verbatim>\<open>Decimal(coverAmount)\<close> of a text of decimal digits.\<close>

definition decimal_of_digits :: "string \<Rightarrow> decimal" where
  "decimal_of_digits ds = Fin (of_nat (foldl (\<lambda>n c. 10 * n + (of_char c - 48)) 0 ds))"

text \<open>
  \<^verbatim>\<open>getQuote\<close>, from the validation to the signed quote.  The period is the number
  Joi validates and \<^verbatim>\<open>parseInt\<close> of it its integer part.  That is the source for a
  period given as a number or as a text of plain decimal digits; for a text in another
  notation of numbers, such as \<^verbatim>\<open>1e2\<close>, Joi reads 100 where \<^verbatim>\<open>parseInt\<close> reads 1, and the
  model does not cover it.
\<close>

definition getQuote ::
  "eth_lib \<Rightarrow> nat \<Rightarrow> chain_data \<Rightarrow> string \<Rightarrow> int \<Rightarrow> string \<Rightarrow> string \<Rightarrow> string \<Rightarrow> real \<Rightarrow>
     js_error + unsigned_quote \<times> signature" where
  "getQuote lib p cd privateKey now contractAddress coverAmount currency' period' =
     (let err = validateQuoteParameters contractAddress coverAmount currency' period' in
      if err \<noteq> [] then Inl (InvalidParameters err)
      else
        let upperCasedCurrency = toUpperCase currency';
            lowerCasedContractAddress = toLowerCase contractAddress;
            parsedPeriod = real_of_int \<lfloor>period'\<rfloor>;
            amount' = decimal_of_digits coverAmount
        in case getCurrencyRate cd upperCasedCurrency of
             Inl e \<Rightarrow> Inl e
           | Inr currencyRate \<Rightarrow>
               let nxmPrice = Fin (of_nat (tokenPrice cd));
                   netStakedNxm =
                     getNetStakedNxm p (stakedNxmBN cd) (firstUnprocessedUnstakeAt cd)
                       (unstakeRequests cd);
                   minCapETH = Fin (of_nat (lastMcrEth cd));
                   quoteData' =
                     calculateQuote p amount' parsedPeriod upperCasedCurrency currencyRate
                       nxmPrice netStakedNxm minCapETH now;
                   unsignedQuote = \<lparr> quoteData = quoteData', contract = lowerCasedContractAddress \<rparr>
               in case signQuote lib unsignedQuote (quotationAddress cd) privateKey of
                    Inl e \<Rightarrow> Inl e
                  | Inr signature' \<Rightarrow> Inr (unsignedQuote, signature'))"

text \<open>
  The relative error of one rounding to \<open>p\<close> significant digits: half a unit of the
  last digit, at most \<open>5 * 10^(-p)\<close> of the value.
\<close>

definition rel_err :: "nat \<Rightarrow> real" where
  "rel_err p = 10 powi (1 - int p) / 2"

text \<open>
  The formula of the risk curve, \<open>max (1, 100 * (1 - (S / 200000e18) ^ (1/7)))\<close>, as a
  number: every Decimal operation in it rounds its result to \<open>p\<close> significant digits,
  the exponent \<open>1/7\<close> included.
\<close>

definition risk_value :: "nat \<Rightarrow> real \<Rightarrow> real" where
  "risk_value p x =
     max 1 (rd p (100 * rd p (1 - rd p (rd p (x / (200000 * 10 ^ 18)) powr rd p (1 / 7)))))"

subsection \<open>Facts about rounding\<close>

lemma ndigits_pos: "0 < ndigits n"
  by (simp add: ndigits.simps[of n])

lemma ndigits_bounds: "0 < n \<Longrightarrow> 10 ^ (ndigits n - 1) \<le> n \<and> n < 10 ^ ndigits n"
proof (induction n rule: ndigits.induct)
  case (1 n)
  show ?case
  proof (cases "n < 10")
    case True
    with 1(2) show ?thesis by (simp add: ndigits.simps[of n])
  next
    case False
    then have pos: "0 < n div 10" by simp
    from 1(1)[OF False pos]
    have IH: "10 ^ (ndigits (n div 10) - 1) \<le> n div 10"
      "n div 10 < 10 ^ ndigits (n div 10)" by auto
    have nd: "ndigits n = Suc (ndigits (n div 10))"
      using False by (simp add: ndigits.simps[of n])
    have pos2: "0 < ndigits (n div 10)" by (rule ndigits_pos)
    have "(10::nat) ^ (ndigits n - 1) = 10 * 10 ^ (ndigits (n div 10) - 1)"
      using nd pos2 by (cases "ndigits (n div 10)") auto
    also have "\<dots> \<le> 10 * (n div 10)" using IH(1) by simp
    also have "\<dots> \<le> n" by simp
    finally have A: "10 ^ (ndigits n - 1) \<le> n" .
    have "n < 10 * (n div 10) + 10" by presburger
    also have "\<dots> \<le> 10 * 10 ^ ndigits (n div 10)" using IH(2) by simp
    finally have B: "n < 10 ^ ndigits n" using nd by simp
    from A B show ?thesis by simp
  qed
qed

lemma ndigits_bounds_real:
  assumes "0 < n"
  shows "(10::real) ^ (ndigits n - 1) \<le> real n" and "real n + 1 \<le> 10 ^ ndigits n"
proof -
  have "real (10 ^ (ndigits n - 1)) \<le> real n"
    using ndigits_bounds[OF assms] of_nat_le_iff by blast
  then show "(10::real) ^ (ndigits n - 1) \<le> real n" by simp
  have "Suc n \<le> 10 ^ ndigits n"
    using ndigits_bounds[OF assms] by simp
  then have "real (Suc n) \<le> real (10 ^ ndigits n)"
    using of_nat_le_iff by blast
  then show "real n + 1 \<le> 10 ^ ndigits n" by simp
qed

lemma expo10_bounds:
  assumes "0 < x"
  shows "10 powi expo10 x \<le> x" and "x < 10 powi (expo10 x + 1)"
proof -
  show "10 powi expo10 x \<le> x"
  proof (cases "1 \<le> x")
    case True
    define n where "n = nat \<lfloor>x\<rfloor>"
    have n: "0 < n" "real n \<le> x" using True by (auto simp: n_def)
    have e: "expo10 x = int (ndigits n - 1)"
      using True ndigits_pos[of n] by (simp add: expo10_def n_def)
    show ?thesis
      using ndigits_bounds_real(1)[OF n(1)] n(2) by (simp only: e power_int_of_nat)
  next
    case False
    define y where "y = 1 / x"
    have y: "1 < y" using False assms by (simp add: y_def)
    define m where "m = nat (\<lceil>y\<rceil> - 1)"
    have c: "2 \<le> \<lceil>y\<rceil>" using y by linarith
    have m: "0 < m" "real m + 1 = of_int \<lceil>y\<rceil>" using c by (auto simp: m_def)
    have e: "expo10 x = - int (ndigits m)"
      using False by (simp add: expo10_def m_def y_def)
    have "y \<le> 10 ^ ndigits m"
      using ndigits_bounds_real(2)[OF m(1)] m(2) le_of_int_ceiling[of y] by linarith
    then have "1 / x \<le> 10 ^ ndigits m" by (simp add: y_def)
    then have "1 / 10 ^ ndigits m \<le> x"
      using assms by (simp add: field_simps)
    then show ?thesis by (simp add: e power_int_minus_divide)
  qed
  show "x < 10 powi (expo10 x + 1)"
  proof (cases "1 \<le> x")
    case True
    define n where "n = nat \<lfloor>x\<rfloor>"
    have n0: "0 < n" using True by (auto simp: n_def)
    have n1: "x < real n + 1" using True by (simp add: n_def)
    have e: "expo10 x + 1 = int (ndigits n)"
      using True by (simp add: expo10_def n_def)
    show ?thesis
      using ndigits_bounds_real(2)[OF n0] n1 by (simp only: e power_int_of_nat)
  next
    case False
    define y where "y = 1 / x"
    have y: "1 < y" using False assms by (simp add: y_def)
    define m where "m = nat (\<lceil>y\<rceil> - 1)"
    have c: "2 \<le> \<lceil>y\<rceil>" using y by linarith
    have m: "0 < m" "real m = of_int \<lceil>y\<rceil> - 1" using c by (auto simp: m_def)
    have e: "expo10 x + 1 = - int (ndigits m - 1)"
      using False ndigits_pos[of m] by (simp add: expo10_def m_def y_def)
    have "real m < y" using m(2) by linarith
    then have "10 ^ (ndigits m - 1) < y"
      using ndigits_bounds_real(1)[OF m(1)] by linarith
    then have "10 ^ (ndigits m - 1) < 1 / x"
      by (simp only: y_def)
    then have "x < 1 / 10 ^ (ndigits m - 1)"
      using assms by (simp add: field_simps)
    then show ?thesis by (simp only: e power_int_minus_divide power_int_of_nat)
  qed
qed

lemma expo10_unique:
  assumes "0 < x" "10 powi e \<le> x" "x < 10 powi (e + 1)"
  shows "expo10 x = e"
proof -
  have "(10::real) powi e < 10 powi (expo10 x + 1)"
    using assms(2) expo10_bounds(2)[OF assms(1)] by linarith
  then have a: "e < expo10 x + 1"
    by (metis linorder_not_le power_int_increasing one_le_numeral)
  have "(10::real) powi expo10 x < 10 powi (e + 1)"
    using assms(3) expo10_bounds(1)[OF assms(1)] by linarith
  then have b: "expo10 x < e + 1"
    by (metis linorder_not_le power_int_increasing one_le_numeral)
  from a b show ?thesis by linarith
qed

lemma expo10_mono:
  assumes "0 < x" "x \<le> y"
  shows "expo10 x \<le> expo10 y"
proof -
  have "0 < y" using assms by linarith
  have "(10::real) powi expo10 x < 10 powi (expo10 y + 1)"
    using expo10_bounds(1)[OF assms(1)] expo10_bounds(2)[OF \<open>0 < y\<close>] assms(2) by linarith
  then have "expo10 x < expo10 y + 1"
    by (metis linorder_not_le power_int_increasing one_le_numeral)
  then show ?thesis by linarith
qed

lemma rd_zero [simp]: "rd p 0 = 0"
  by (simp add: rd_def)

lemma rd_minus: "rd p (- x) = - rd p x"
  by (simp add: rd_def Let_def)

lemma rd_pos_unfold:
  "0 < x \<Longrightarrow> rd p x = of_int \<lfloor>x / 10 powi (expo10 x - int p + 1) + 1 / 2\<rfloor> * 10 powi (expo10 x - int p + 1)"
  by (simp add: rd_def Let_def)

lemma rd_eval:
  assumes "0 < x" "10 powi e \<le> x" "x < 10 powi (e + 1)"
  shows "rd p x = of_int \<lfloor>x / 10 powi (e - int p + 1) + 1 / 2\<rfloor> * 10 powi (e - int p + 1)"
  using rd_pos_unfold[OF assms(1)] expo10_unique[OF assms] by simp

lemma rd_nonneg: "0 \<le> x \<Longrightarrow> 0 \<le> rd p x"
proof (cases "x = 0")
  case True then show ?thesis by simp
next
  case False
  assume "0 \<le> x"
  with False have x: "0 < x" by simp
  have "0 \<le> x / 10 powi (expo10 x - int p + 1) + 1 / 2"
    using x by (simp add: add_nonneg_nonneg)
  then have "0 \<le> \<lfloor>x / 10 powi (expo10 x - int p + 1) + 1 / 2\<rfloor>" by simp
  then show ?thesis by (simp add: rd_pos_unfold[OF x])
qed

lemma rd_err_pos:
  assumes "0 < x"
  shows "\<bar>rd p x - x\<bar> \<le> x * (10 powi (1 - int p) / 2)"
proof -
  define u :: real where "u = 10 powi (expo10 x - int p + 1)"
  have u: "0 < u" by (simp add: u_def)
  define n where "n = \<lfloor>x / u + 1 / 2\<rfloor>"
  have r: "rd p x = of_int n * u" by (simp add: rd_pos_unfold[OF assms] n_def u_def)
  have "of_int n \<le> x / u + 1 / 2" unfolding n_def by linarith
  then have "of_int n * u \<le> (x / u + 1 / 2) * u" using u by (simp only: mult_le_cancel_right_pos)
  moreover have "(x / u + 1 / 2) * u = x + u / 2" using u by (simp add: algebra_simps)
  ultimately have hi: "of_int n * u \<le> x + u / 2" by simp
  have "x / u + 1 / 2 - 1 < of_int n" unfolding n_def by linarith
  then have "(x / u + 1 / 2 - 1) * u < of_int n * u" using u by (simp only: mult_less_cancel_right_pos)
  moreover have "(x / u + 1 / 2 - 1) * u = x - u / 2" using u by (simp add: algebra_simps)
  ultimately have lo: "x - u / 2 < of_int n * u" by simp
  from hi lo have a: "\<bar>rd p x - x\<bar> \<le> u / 2" unfolding r by linarith
  have "u = 10 powi expo10 x * 10 powi (1 - int p)"
    unfolding u_def by (simp flip: power_int_add add: algebra_simps)
  also have "\<dots> \<le> x * 10 powi (1 - int p)"
    using expo10_bounds(1)[OF assms] by (simp add: mult_right_mono)
  finally show ?thesis using a by simp
qed

lemma rd_upper:
  assumes "0 < x"
  shows "rd p x \<le> x * (1 + 10 powi (1 - int p) / 2)"
proof -
  have "rd p x - x \<le> x * (10 powi (1 - int p) / 2)"
    using rd_err_pos[OF assms, of p] by linarith
  then show ?thesis by (simp add: algebra_simps)
qed

lemma rd_lower:
  assumes "0 < x"
  shows "x * (1 - 10 powi (1 - int p) / 2) \<le> rd p x"
proof -
  have "x - rd p x \<le> x * (10 powi (1 - int p) / 2)"
    using rd_err_pos[OF assms, of p] by linarith
  then show ?thesis by (simp add: algebra_simps)
qed

lemma rd_bounds_pos:
  assumes "0 < x" "0 < p"
  shows "10 powi expo10 x \<le> rd p x" and "rd p x \<le> 10 powi (expo10 x + 1)"
proof -
  define e where "e = expo10 x"
  define u :: real where "u = 10 powi (e - int p + 1)"
  have u: "0 < u" by (simp add: u_def)
  define n where "n = \<lfloor>x / u + 1 / 2\<rfloor>"
  have r: "rd p x = of_int n * u" by (simp add: rd_pos_unfold[OF assms(1)] n_def u_def e_def)
  have lo_u: "10 powi e = (10::real) ^ (p - 1) * u"
  proof -
    have "(10::real) ^ (p - 1) = 10 powi (int p - 1)"
      using assms(2) by (simp add: power_int_def nat_diff_distrib)
    then show ?thesis unfolding u_def by (simp flip: power_int_add)
  qed
  have hi_u: "10 powi (e + 1) = (10::real) ^ p * u"
  proof -
    have "(10::real) powi (e + 1) = 10 powi (int p + (e - int p + 1))" by simp
    also have "\<dots> = 10 powi int p * 10 powi (e - int p + 1)"
      by (rule power_int_add) simp
    finally show ?thesis unfolding u_def by simp
  qed
  have "(10::real) ^ (p - 1) * u \<le> x" using expo10_bounds(1)[OF assms(1)] lo_u by (simp add: e_def)
  then have "(10::real) ^ (p - 1) \<le> x / u" using u by (simp add: field_simps)
  then have "of_int (10 ^ (p - 1)) \<le> x / u + 1 / 2" by simp
  then have "10 ^ (p - 1) \<le> n" unfolding n_def by (simp only: le_floor_iff)
  then have "real_of_int (10 ^ (p - 1)) \<le> of_int n" by (simp only: of_int_le_iff)
  then have "(10::real) ^ (p - 1) \<le> of_int n" by simp
  then have "(10::real) ^ (p - 1) * u \<le> of_int n * u" using u by (simp only: mult_le_cancel_right_pos)
  then show "10 powi expo10 x \<le> rd p x" using lo_u r by (simp add: e_def)
  have "x < (10::real) ^ p * u" using expo10_bounds(2)[OF assms(1)] hi_u by (simp add: e_def)
  then have "x / u < 10 ^ p" using u by (simp add: field_simps)
  then have "x / u + 1 / 2 < of_int (10 ^ p) + 1" by simp
  then have "n < 10 ^ p + 1" unfolding n_def by (simp only: floor_less_iff of_int_add of_int_1)
  then have "n \<le> 10 ^ p" by simp
  then have "real_of_int n \<le> of_int (10 ^ p)" by (simp only: of_int_le_iff)
  then have "of_int n \<le> (10::real) ^ p" by simp
  then have "of_int n * u \<le> (10::real) ^ p * u" using u by (simp only: mult_le_cancel_right_pos)
  then show "rd p x \<le> 10 powi (expo10 x + 1)" using hi_u r by (simp add: e_def)
qed

lemma rd_mono_pos:
  assumes "0 < x" "x \<le> y" "0 < p"
  shows "rd p x \<le> rd p y"
proof -
  have y: "0 < y" using assms by linarith
  show ?thesis
  proof (cases "expo10 x = expo10 y")
    case True
    define u :: real where "u = 10 powi (expo10 y - int p + 1)"
    have u: "0 < u" by (simp add: u_def)
    have "x / u + 1 / 2 \<le> y / u + 1 / 2" using assms(2) u by (simp add: divide_right_mono)
    then have "\<lfloor>x / u + 1 / 2\<rfloor> \<le> \<lfloor>y / u + 1 / 2\<rfloor>" by (rule floor_mono)
    then have "real_of_int \<lfloor>x / u + 1 / 2\<rfloor> * u \<le> real_of_int \<lfloor>y / u + 1 / 2\<rfloor> * u"
      using u by (simp only: mult_le_cancel_right_pos of_int_le_iff)
    then show ?thesis
      by (simp add: rd_pos_unfold[OF assms(1)] rd_pos_unfold[OF y] True u_def)
  next
    case False
    with expo10_mono[OF assms(1,2)] have "expo10 x + 1 \<le> expo10 y" by linarith
    then have "(10::real) powi (expo10 x + 1) \<le> 10 powi expo10 y"
      by (intro power_int_increasing) auto
    with rd_bounds_pos(2)[OF assms(1,3)] rd_bounds_pos(1)[OF y assms(3)]
    show ?thesis by linarith
  qed
qed

lemma rd_mono:
  assumes "x \<le> y" "0 < p"
  shows "rd p x \<le> rd p y"
proof -
  consider "0 < x" | "x \<le> 0" "0 \<le> y" | "y < 0" by linarith
  then show ?thesis
  proof cases
    case 1
    then show ?thesis using rd_mono_pos assms by simp
  next
    case 2
    have "rd p x \<le> 0" using rd_nonneg[of "- x" p] 2(1) by (simp add: rd_minus)
    moreover have "0 \<le> rd p y" using rd_nonneg 2(2) by simp
    ultimately show ?thesis by linarith
  next
    case 3
    have "rd p (- y) \<le> rd p (- x)" using rd_mono_pos[of "- y" "- x" p] 3 assms by simp
    then show ?thesis by (simp add: rd_minus)
  qed
qed

lemma rd_fix_pos:
  assumes "0 < m" "m < 10 ^ p"
  shows "rd p (of_int m * 10 powi k) = of_int m * 10 powi k"
proof -
  define x :: real where "x = of_int m * 10 powi k"
  have x: "0 < x" using assms(1) by (simp add: x_def)
  define e where "e = expo10 x"
  have "real_of_int m < of_int (10 ^ p)" using assms(2) by (simp only: of_int_less_iff)
  then have "of_int m < (10::real) ^ p" by simp
  then have "x < 10 ^ p * 10 powi k" by (simp add: x_def)
  also have "\<dots> = 10 powi (int p + k)" by (simp add: power_int_add)
  finally have "(10::real) powi e < 10 powi (int p + k)"
    using expo10_bounds(1)[OF x] by (simp add: e_def)
  then have "e < int p + k"
    using power_int_increasing[of "int p + k" e "10::real"] by force
  define j where "j = nat (k - (e - int p + 1))"
  have j: "k - (e - int p + 1) = int j"
    using \<open>e < int p + k\<close> by (simp add: j_def)
  define u :: real where "u = 10 powi (e - int p + 1)"
  have u: "0 < u" by (simp add: u_def)
  have "10 powi k = u * (10::real) powi (int j)"
    unfolding u_def j[symmetric] by (simp flip: power_int_add)
  then have xu: "x / u = of_int (m * 10 ^ j)" using u by (simp add: x_def)
  have "\<lfloor>x / u + 1 / 2\<rfloor> = m * 10 ^ j"
    unfolding xu by linarith
  then have "rd p x = of_int (m * 10 ^ j) * u"
    by (simp add: rd_pos_unfold[OF x] u_def e_def)
  also have "\<dots> = x" using xu u by (simp add: field_simps)
  finally show ?thesis by (simp add: x_def)
qed

lemma rd_one: "0 < p \<Longrightarrow> rd p 1 = 1"
  using rd_fix_pos[of 1 p 0] by simp

lemma rd_hundred: "0 < p \<Longrightarrow> rd p 100 = 100"
  using rd_fix_pos[of 1 p 2] by simp

lemma rd_scale_pos:
  assumes "0 < x"
  shows "rd p (x * 10 powi k) = rd p x * 10 powi k"
proof -
  define e where "e = expo10 x"
  have xk: "0 < x * 10 powi k" using assms by simp
  have "10 powi (e + k) = (10::real) powi e * 10 powi k" by (rule power_int_add) simp
  then have lo: "10 powi (e + k) \<le> x * 10 powi k"
    using expo10_bounds(1)[OF assms] by (simp add: e_def mult_right_mono)
  have "10 powi (e + k + 1) = (10::real) powi (e + 1) * 10 powi k"
    using power_int_add[of "10::real" "e + 1" k] by (simp add: algebra_simps)
  then have hi: "x * 10 powi k < 10 powi (e + k + 1)"
    using expo10_bounds(2)[OF assms] by (simp add: e_def)
  define u :: real where "u = 10 powi (e - int p + 1)"
  have u: "0 < u" by (simp add: u_def)
  have uk: "10 powi (e + k - int p + 1) = u * 10 powi k"
    unfolding u_def using power_int_add[of "10::real" "e - int p + 1" k] by (simp add: algebra_simps)
  have q: "x * 10 powi k / (u * 10 powi k) = x / u" by simp
  have "rd p (x * 10 powi k) = of_int \<lfloor>x * 10 powi k / (u * 10 powi k) + 1 / 2\<rfloor> * (u * 10 powi k)"
    using rd_eval[OF xk lo hi, of p] by (simp only: uk)
  also have "\<dots> = of_int \<lfloor>x / u + 1 / 2\<rfloor> * u * 10 powi k" by (simp only: q mult.assoc)
  also have "\<dots> = rd p x * 10 powi k"
    by (simp add: rd_pos_unfold[OF assms] u_def e_def)
  finally show ?thesis .
qed

lemma rd_scale: "rd p (x * 10 powi k) = rd p x * 10 powi k"
proof -
  consider "0 < x" | "x = 0" | "x < 0" by linarith
  then show ?thesis
  proof cases
    case 1 then show ?thesis by (rule rd_scale_pos)
  next
    case 2 then show ?thesis by simp
  next
    case 3
    then have "rd p (- x * 10 powi k) = rd p (- x) * 10 powi k" by (intro rd_scale_pos) simp
    then show ?thesis using rd_minus[of p "x * 10 powi k"] by (simp add: rd_minus)
  qed
qed

lemma rd_div_pow10: "rd p (x / 10 ^ n) = rd p x / 10 ^ n"
  using rd_scale[of p x "- int n"] by (simp add: power_int_minus field_simps)

lemma rd_repr_pos:
  assumes "0 < x" "0 < p"
  shows "\<exists>n k. 0 < n \<and> n \<le> 10 ^ p \<and> rd p x = of_int n * 10 powi k"
proof -
  define e where "e = expo10 x"
  define u :: real where "u = 10 powi (e - int p + 1)"
  have u: "0 < u" by (simp add: u_def)
  define n where "n = \<lfloor>x / u + 1 / 2\<rfloor>"
  have r: "rd p x = of_int n * u" by (simp add: rd_pos_unfold[OF assms(1)] n_def u_def e_def)
  have hi_u: "10 powi (e + 1) = (10::real) ^ p * u"
  proof -
    have "(10::real) powi (e + 1) = 10 powi (int p + (e - int p + 1))" by simp
    also have "\<dots> = 10 powi int p * 10 powi (e - int p + 1)"
      by (rule power_int_add) simp
    finally show ?thesis unfolding u_def by simp
  qed
  have "of_int n * u \<le> (10::real) ^ p * u"
    using rd_bounds_pos(2)[OF assms] r hi_u by (simp add: e_def)
  then have "real_of_int n \<le> 10 ^ p" using u by (simp only: mult_le_cancel_right_pos)
  then have "real_of_int n \<le> of_int (10 ^ p)" by simp
  then have n_hi: "n \<le> 10 ^ p" by (simp only: of_int_le_iff)
  have "0 < rd p x"
    using rd_bounds_pos(1)[OF assms] zero_less_power_int[of "10::real" "expo10 x"] by linarith
  then have "0 < real_of_int n" using u r by (simp add: zero_less_mult_iff)
  then have "0 < n" by simp
  with n_hi r show ?thesis unfolding u_def by blast
qed

lemma rd_idem_pos:
  assumes "0 < x" "0 < p"
  shows "rd p (rd p x) = rd p x"
proof -
  obtain n k where nk: "0 < n" "n \<le> 10 ^ p" "rd p x = of_int n * 10 powi k"
    using rd_repr_pos[OF assms] by blast
  show ?thesis
  proof (cases "n < 10 ^ p")
    case True
    then show ?thesis using rd_fix_pos[OF nk(1) True, of k] nk(3) by simp
  next
    case False
    with nk(2) have n: "n = 10 ^ p" by simp
    have "rd p x = of_int 1 * 10 powi (int p + k)"
      unfolding nk(3) n by (simp add: power_int_add)
    moreover have "(1::int) < 10 ^ p" using assms(2) by simp
    ultimately show ?thesis using rd_fix_pos[of 1 p "int p + k"] by simp
  qed
qed

lemma rd_idem: "0 < p \<Longrightarrow> rd p (rd p x) = rd p x"
proof -
  assume p: "0 < p"
  consider "0 < x" | "x = 0" | "x < 0" by linarith
  then show ?thesis
  proof cases
    case 1 then show ?thesis using p by (rule rd_idem_pos)
  next
    case 2 then show ?thesis by simp
  next
    case 3
    then have "rd p (rd p (- x)) = rd p (- x)" using p by (intro rd_idem_pos) simp_all
    then show ?thesis by (simp add: rd_minus)
  qed
qed

lemma rd_pos: "0 < x \<Longrightarrow> 0 < p \<Longrightarrow> 0 < rd p x"
  using rd_bounds_pos(1)[of x p] zero_less_power_int[of "10::real" "expo10 x"] by linarith

subsection \<open>Facts about the expiration time\<close>

lemma ceil_ms_bounds:
  fixes n :: int
  defines "c \<equiv> \<lceil>real_of_int n / 1000\<rceil>"
  shows "n \<le> 1000 * c" and "1000 * c < n + 1000"
proof -
  have a: "real_of_int n / 1000 \<le> of_int c" unfolding c_def by (rule le_of_int_ceiling)
  have b: "of_int c - 1 < real_of_int n / 1000" unfolding c_def by linarith
  from a have "real_of_int n \<le> real_of_int (1000 * c)" by simp
  then show "n \<le> 1000 * c" by (simp only: of_int_le_iff)
  from b have "real_of_int (1000 * c) < real_of_int (n + 1000)" by simp
  then show "1000 * c < n + 1000" by (simp only: of_int_less_iff)
qed

lemma ceil_ms: "\<lceil>real_of_int n / 1000 + 3600\<rceil> = (n + 999) div 1000 + 3600"
proof -
  define c where "c = \<lceil>real_of_int n / 1000\<rceil>"
  have b: "n \<le> 1000 * c" "1000 * c < n + 1000"
    using ceil_ms_bounds[of n] by (simp_all add: c_def)
  have "(n + 999) div 1000 = c"
  proof (rule int_div_pos_eq)
    show "n + 999 = 1000 * c + (n + 999 - 1000 * c)" by simp
    show "0 \<le> n + 999 - 1000 * c" using b by linarith
    show "n + 999 - 1000 * c < 1000" using b by linarith
  qed
  then show ?thesis by (simp add: c_def)
qed

subsection \<open>Facts about the capacity\<close>

lemma utils_min_Fin: "utils_min (Fin a) (Fin b) = Fin (min a b)"
  by (simp add: utils_min_def min_def)

lemma utils_max_Fin: "utils_max (Fin a) (Fin b) = Fin (max a b)"
  by (simp add: utils_max_def dec_gt_def max_def)

lemma calculateCapacity_Fin:
  "calculateCapacity p (Fin s) (Fin q) (Fin m) =
     Fin (min (rd p (rd p (s * q) / 10 ^ 18)) (rd p (m * (2 / 10))))"
  by (simp add: calculateCapacity_def CONTRACT_CAPACITY_LIMIT_PERCENT_def utils_min_Fin)

lemma calculateCapacity_rounded:
  assumes "0 < p"
  shows "calculateCapacity p (Fin s) (Fin q) (Fin m) =
     Fin (min (rd p (s * q) / 10 ^ 18) (rd p (m * (2 / 10))))"
  unfolding calculateCapacity_Fin by (simp only: rd_div_pow10 rd_idem[OF assms])

lemma rel_err_pos: "0 < rel_err p"
  by (simp add: rel_err_def)

lemma rel_err_le_half: "0 < p \<Longrightarrow> rel_err p \<le> 1 / 2"
proof -
  assume "0 < p"
  then have "(10::real) powi (1 - int p) \<le> 10 powi 0"
    by (intro power_int_increasing) auto
  then show ?thesis by (simp add: rel_err_def)
qed

lemma min_scaled_lower:
  fixes a b k :: real
  assumes "0 \<le> k" "a * k \<le> a'" "b * k \<le> b'"
  shows "min a b * k \<le> min a' b'"
proof -
  have "min a b * k \<le> a * k" using assms(1) by (simp add: mult_right_mono)
  moreover have "min a b * k \<le> b * k" using assms(1) by (simp add: mult_right_mono)
  ultimately show ?thesis using assms(2,3) by simp
qed

lemma min_scaled_upper:
  fixes a b k :: real
  assumes "0 \<le> k" "a' \<le> a * k" "b' \<le> b * k"
  shows "min a' b' \<le> min a b * k"
proof (cases "a \<le> b")
  case True
  then show ?thesis using assms(2) by (simp add: min_def)
next
  case False
  then show ?thesis using assms(3) by (simp add: min_def)
qed

lemma calculateCapacity_bounds:
  assumes "0 < p" "0 < s" "0 < q" "0 < m"
  shows "min (s * q / 10 ^ 18) (m * (2 / 10)) * (1 - rel_err p)
           \<le> min (rd p (s * q) / 10 ^ 18) (rd p (m * (2 / 10)))"
    and "min (rd p (s * q) / 10 ^ 18) (rd p (m * (2 / 10)))
           \<le> min (s * q / 10 ^ 18) (m * (2 / 10)) * (1 + rel_err p)"
proof -
  have sq: "0 < s * q" using assms by simp
  have m5: "0 < m * (2 / 10)" using assms by simp
  have k1: "0 \<le> 1 - rel_err p" using rel_err_le_half[OF assms(1)] by linarith
  have k2: "0 \<le> 1 + rel_err p" using rel_err_pos[of p] by linarith
  have "s * q * (1 + rel_err p) / 10 ^ 18 = s * q / 10 ^ 18 * (1 + rel_err p)" by simp
  moreover have "rd p (s * q) / 10 ^ 18 \<le> s * q * (1 + rel_err p) / 10 ^ 18"
    using rd_upper[OF sq, of p] unfolding rel_err_def by (intro divide_right_mono) simp_all
  ultimately have a_hi: "rd p (s * q) / 10 ^ 18 \<le> s * q / 10 ^ 18 * (1 + rel_err p)" by simp
  have "s * q * (1 - rel_err p) / 10 ^ 18 = s * q / 10 ^ 18 * (1 - rel_err p)" by simp
  moreover have "s * q * (1 - rel_err p) / 10 ^ 18 \<le> rd p (s * q) / 10 ^ 18"
    using rd_lower[OF sq, of p] unfolding rel_err_def by (intro divide_right_mono) simp_all
  ultimately have a_lo: "s * q / 10 ^ 18 * (1 - rel_err p) \<le> rd p (s * q) / 10 ^ 18" by simp
  have b_hi: "rd p (m * (2 / 10)) \<le> m * (2 / 10) * (1 + rel_err p)"
    using rd_upper[OF m5, of p] by (simp add: rel_err_def)
  have b_lo: "m * (2 / 10) * (1 - rel_err p) \<le> rd p (m * (2 / 10))"
    using rd_lower[OF m5, of p] by (simp add: rel_err_def)
  show "min (s * q / 10 ^ 18) (m * (2 / 10)) * (1 - rel_err p)
           \<le> min (rd p (s * q) / 10 ^ 18) (rd p (m * (2 / 10)))"
    by (rule min_scaled_lower[OF k1 a_lo b_lo])
  show "min (rd p (s * q) / 10 ^ 18) (rd p (m * (2 / 10)))
           \<le> min (s * q / 10 ^ 18) (m * (2 / 10)) * (1 + rel_err p)"
    by (rule min_scaled_upper[OF k2 a_hi b_hi])
qed

subsection \<open>Facts about the offered amount\<close>

lemma calculateQuote_amount:
  assumes "S \<noteq> Fin 0"
  shows "amount (calculateQuote p A d c rate P S M now) =
           dec_div p (utils_min (calculateCapacity p S P M) (dec_mul p A rate)) rate"
  using assms by (simp add: calculateQuote_def Let_def dec_eq_def)

lemma offered_Fin:
  assumes "s \<noteq> 0" "r \<noteq> 0"
  shows "amount (calculateQuote p (Fin a) d c (Fin r) (Fin q) (Fin s) (Fin m) now) =
           Fin (rd p (min (min (rd p (rd p (s * q) / 10 ^ 18)) (rd p (m * (2 / 10)))) (rd p (a * r)) / r))"
  using assms by (simp add: calculateQuote_amount calculateCapacity_Fin utils_min_Fin)

lemma offered_bounds:
  assumes p: "0 < p" and a: "0 < a" and r: "0 < r" and c: "0 < cap"
  defines "f \<equiv> min cap (rd p (a * r))"
  shows "rd p (f / r) \<le> a * (1 + rel_err p) * (1 + rel_err p)"
    and "rd p (f / r) * r \<le> cap * (1 + rel_err p)"
proof -
  have e: "0 < 1 + rel_err p" using rel_err_pos[of p] by linarith
  have ar: "0 < a * r" using a r by simp
  have req: "0 < rd p (a * r)" using rd_pos[OF ar p] .
  have f: "0 < f" using c req by (simp add: f_def)
  have fr: "0 < f / r" using f r by simp
  have o: "rd p (f / r) \<le> f / r * (1 + rel_err p)"
    using rd_upper[OF fr, of p] by (simp add: rel_err_def)
  have "f \<le> rd p (a * r)" by (simp add: f_def)
  also have "\<dots> \<le> a * r * (1 + rel_err p)"
    using rd_upper[OF ar, of p] by (simp add: rel_err_def)
  finally have "f \<le> a * (1 + rel_err p) * r" by (simp add: mult_ac)
  then have fa: "f / r \<le> a * (1 + rel_err p)" using r by (simp add: pos_divide_le_eq)
  have e0: "0 \<le> 1 + rel_err p" using e by linarith
  have "f / r * (1 + rel_err p) \<le> a * (1 + rel_err p) * (1 + rel_err p)"
    by (rule mult_right_mono[OF fa e0])
  with o show "rd p (f / r) \<le> a * (1 + rel_err p) * (1 + rel_err p)" by linarith
  have r0: "0 \<le> r" using r by linarith
  have "rd p (f / r) * r \<le> f / r * (1 + rel_err p) * r"
    by (rule mult_right_mono[OF o r0])
  also have "\<dots> = f * (1 + rel_err p)" using r by simp
  also have "\<dots> \<le> cap * (1 + rel_err p)"
    by (rule mult_right_mono[OF _ e0]) (simp add: f_def)
  finally show "rd p (f / r) * r \<le> cap * (1 + rel_err p)" .
qed

lemma offered_exact:
  assumes "0 < r" "rd p (a * r) = a * r" "rd p (min cap (a * r) / r) = min cap (a * r) / r"
  shows "rd p (min cap (rd p (a * r)) / r) \<le> a"
    and "rd p (min cap (rd p (a * r)) / r) * r \<le> cap"
proof -
  have o: "rd p (min cap (rd p (a * r)) / r) = min cap (a * r) / r"
    by (simp only: assms(2,3))
  have "min cap (a * r) / r \<le> a * r / r" using assms(1) by (intro divide_right_mono) simp_all
  then show "rd p (min cap (rd p (a * r)) / r) \<le> a" using assms(1) o by simp
  have "min cap (a * r) / r * r = min cap (a * r)" using assms(1) by simp
  then show "rd p (min cap (rd p (a * r)) / r) * r \<le> cap" using o by simp
qed


lemma capacity_value_fixed:
  assumes "0 < p"
  shows "rd p (min (rd p (x) / 10 ^ 18) (rd p y)) = min (rd p x / 10 ^ 18) (rd p y)"
proof -
  have a: "rd p (rd p x / 10 ^ 18) = rd p x / 10 ^ 18"
    by (simp only: rd_div_pow10 rd_idem[OF assms])
  have b: "rd p (rd p y) = rd p y" by (rule rd_idem[OF assms])
  show ?thesis
  proof (cases "rd p x / 10 ^ 18 \<le> rd p y")
    case True
    then have "min (rd p x / 10 ^ 18) (rd p y) = rd p x / 10 ^ 18" by (rule min_absorb1)
    then show ?thesis by (simp only: a)
  next
    case False
    then have "rd p y \<le> rd p x / 10 ^ 18" by linarith
    then have "min (rd p x / 10 ^ 18) (rd p y) = rd p y" by (rule min_absorb2)
    then show ?thesis by (simp only: b)
  qed
qed

lemma offered_rounded:
  assumes "0 < p" "s \<noteq> 0" "r \<noteq> 0"
  shows "amount (calculateQuote p (Fin a) d c (Fin r) (Fin q) (Fin s) (Fin m) now) =
           Fin (rd p (min (min (rd p (s * q) / 10 ^ 18) (rd p (m * (2 / 10)))) (rd p (a * r)) / r))"
  unfolding offered_Fin[OF assms(2,3)] by (simp only: rd_div_pow10 rd_idem[OF assms(1)])

lemma rd20_1: "rd 20 (120000 * 10 ^ 18 * 17167381974248927) = 20600858369098712400 * 10 ^ 20"
  by (subst rd_eval[where e=39]) simp_all
lemma rd20_2: "rd 20 (13500 * 10 ^ 18 * (2 / 10)) = 2700 * 10 ^ 18"
  by (subst rd_eval[where e=21]) simp_all
lemma rd20_3: "rd 20 (54325 * 4291845493562231) = 233154506437768199080"
  by (subst rd_eval[where e=20]) simp_all
lemma rd20_4: "rd 20 (233154506437768199080 / 4291845493562231) = 54325 + 1 / 10 ^ 15"
  by (subst rd_eval[where e=4]) simp_all
lemma rd20_5: "rd 20 (25 * 10 ^ 18 * 17167381974248927) = 429184549356223175 * 10 ^ 18"
  by (subst rd_eval[where e=35]) simp_all
lemma rd20_6: "rd 20 (800000 * 4291845493562231) = 3433476394849784800000"
  by (subst rd_eval[where e=21]) simp_all
lemma rd20_7: "rd 20 (429184549356223175 / 4291845493562231) = 10000000000000001748 / 10 ^ 17"
  by (subst rd_eval[where e=2]) simp_all
lemma rd20_8: "rd 20 (10000000000000001748 / 10 ^ 17 * 4291845493562231) = 42918454935622317502 / 100"
  by (subst rd_eval[where e=17]) simp_all

lemma offered_example_1:
  "amount (calculateQuote 20 (Fin 54325) 100 ''DAI'' (Fin 4291845493562231) (Fin 17167381974248927)
      (Fin (120000 * 10 ^ 18)) (Fin (13500 * 10 ^ 18)) 1579586400000) = Fin (54325 + 1 / 10 ^ 15)"
proof -
  have f: "min (min (20600858369098712400 * 10 ^ 20 / 10 ^ 18) (2700 * 10 ^ 18)) 233154506437768199080
             = (233154506437768199080::real)" by simp
  show ?thesis
    by (subst offered_rounded) (simp_all only: rd20_1 rd20_2 rd20_3 f rd20_4, simp_all)
qed

lemma capacity_example_2:
  "calculateCapacity 20 (Fin (25 * 10 ^ 18)) (Fin 17167381974248927) (Fin (13500 * 10 ^ 18)) = Fin 429184549356223175"
  by (subst calculateCapacity_rounded) (simp_all only: rd20_5 rd20_2, simp_all)

lemma offered_example_2:
  "amount (calculateQuote 20 (Fin 800000) 100 ''DAI'' (Fin 4291845493562231) (Fin 17167381974248927)
      (Fin (25 * 10 ^ 18)) (Fin (13500 * 10 ^ 18)) 1579586400000) = Fin (10000000000000001748 / 10 ^ 17)"
proof -
  have f: "min (min (429184549356223175 * 10 ^ 18 / 10 ^ 18) (2700 * 10 ^ 18)) 3433476394849784800000
             = (429184549356223175::real)" by simp
  show ?thesis
    by (subst offered_rounded) (simp_all only: rd20_5 rd20_2 rd20_6 f rd20_7, simp_all)
qed

subsection \<open>Facts about the risk curve\<close>

lemma rd_low_risk_limit:
  assumes "0 < p"
  shows "rd p (200000 * 10 ^ 18) = 200000 * 10 ^ 18"
proof -
  have "(10::int) ^ 1 \<le> 10 ^ p" using assms by (intro power_increasing) simp_all
  then have "(2::int) < 10 ^ p" by simp
  then show ?thesis using rd_fix_pos[of 2 p 23] by simp
qed

lemma rd_seventh_pos: "0 < p \<Longrightarrow> 0 < rd p (1 / 7)"
  by (intro rd_pos) simp_all

lemma dec_pow_nonneg_base:
  assumes "0 < p" "0 \<le> x" "0 < y"
  shows "dec_pow p (Fin x) (Fin y) = Fin (rd p (x powr y))"
proof -
  consider "x = 0" | "x = 1" | "0 < x" "x \<noteq> 1" using assms(2) by fastforce
  then show ?thesis
  proof cases
    case 1 then show ?thesis using assms by simp
  next
    case 2 then show ?thesis using assms by (simp add: rd_one)
  next
    case 3 then show ?thesis using assms by simp
  qed
qed

lemma calculateRisk_Fin:
  assumes "0 < p" "0 \<le> x"
  shows "calculateRisk p (Fin x) = Fin (risk_value p x)"
proof -
  define L :: real where "L = 200000 * 10 ^ 18"
  have Lnz: "L \<noteq> 0" by (simp add: L_def)
  have l: "dec_mul p (Fin 200000) (Fin (10 ^ 18)) = Fin L"
    by (simp only: dec_mul.simps rd_low_risk_limit[OF assms(1)] L_def)
  have d: "dec_div p (Fin x) (Fin L) = Fin (rd p (x / L))" using Lnz by simp
  have e: "dec_div p (Fin 1) (Fin 7) = Fin (rd p (1 / 7))" by simp
  have b: "0 \<le> rd p (x / L)" using assms(2) by (intro rd_nonneg) (simp add: L_def)
  have pw: "dec_pow p (Fin (rd p (x / L))) (Fin (rd p (1 / 7))) =
      Fin (rd p (rd p (x / L) powr rd p (1 / 7)))"
    by (rule dec_pow_nonneg_base[OF assms(1) b rd_seventh_pos[OF assms(1)]])
  have sub: "dec_sub p (Fin 1) (Fin w) = Fin (rd p (1 - w))" for w
    by (simp add: dec_sub_def)
  have mul: "dec_mul p (Fin 100) (Fin t) = Fin (rd p (100 * t))" for t by simp
  have "calculateRisk p (Fin x) =
      Fin (max 1 (rd p (100 * rd p (1 - rd p (rd p (x / L) powr rd p (1 / 7))))))"
    unfolding calculateRisk_def Let_def l d e pw sub mul utils_max_Fin ..
  then show ?thesis unfolding risk_value_def L_def .
qed

lemma risk_value_antimono:
  assumes "0 < p" "0 \<le> x" "x \<le> y"
  shows "risk_value p y \<le> risk_value p x"
proof -
  have y: "0 \<le> rd p (1 / 7)" using rd_seventh_pos[OF assms(1)] by linarith
  have "x / (200000 * 10 ^ 18) \<le> y / (200000 * 10 ^ 18)"
    using assms(3) by (intro divide_right_mono) simp_all
  then have b: "rd p (x / (200000 * 10 ^ 18)) \<le> rd p (y / (200000 * 10 ^ 18))"
    by (rule rd_mono[OF _ assms(1)])
  have b0: "0 \<le> rd p (x / (200000 * 10 ^ 18))" using assms(2) by (intro rd_nonneg) simp
  have "rd p (x / (200000 * 10 ^ 18)) powr rd p (1 / 7) \<le> rd p (y / (200000 * 10 ^ 18)) powr rd p (1 / 7)"
    by (rule powr_mono2[OF y b0 b])
  then have "rd p (rd p (x / (200000 * 10 ^ 18)) powr rd p (1 / 7))
      \<le> rd p (rd p (y / (200000 * 10 ^ 18)) powr rd p (1 / 7))"
    by (rule rd_mono[OF _ assms(1)])
  then have "1 - rd p (rd p (y / (200000 * 10 ^ 18)) powr rd p (1 / 7))
      \<le> 1 - rd p (rd p (x / (200000 * 10 ^ 18)) powr rd p (1 / 7))" by linarith
  then have "rd p (1 - rd p (rd p (y / (200000 * 10 ^ 18)) powr rd p (1 / 7)))
      \<le> rd p (1 - rd p (rd p (x / (200000 * 10 ^ 18)) powr rd p (1 / 7)))"
    by (rule rd_mono[OF _ assms(1)])
  then have "100 * rd p (1 - rd p (rd p (y / (200000 * 10 ^ 18)) powr rd p (1 / 7)))
      \<le> 100 * rd p (1 - rd p (rd p (x / (200000 * 10 ^ 18)) powr rd p (1 / 7)))" by simp
  then have "rd p (100 * rd p (1 - rd p (rd p (y / (200000 * 10 ^ 18)) powr rd p (1 / 7))))
      \<le> rd p (100 * rd p (1 - rd p (rd p (x / (200000 * 10 ^ 18)) powr rd p (1 / 7))))"
    by (rule rd_mono[OF _ assms(1)])
  then show ?thesis unfolding risk_value_def by (rule max.mono[OF order_refl])
qed

lemma risk_value_range:
  assumes "0 < p"
  shows "1 \<le> risk_value p x" and "risk_value p x \<le> 100"
proof -
  show "1 \<le> risk_value p x" by (simp add: risk_value_def)
  define w where "w = rd p (rd p (x / (200000 * 10 ^ 18)) powr rd p (1 / 7))"
  have "0 \<le> w" unfolding w_def by (intro rd_nonneg) simp
  then have "1 - w \<le> 1" by linarith
  then have "rd p (1 - w) \<le> rd p 1" by (rule rd_mono[OF _ assms])
  then have "100 * rd p (1 - w) \<le> 100" by (simp add: rd_one[OF assms])
  then have "rd p (100 * rd p (1 - w)) \<le> rd p 100" by (rule rd_mono[OF _ assms])
  then show "risk_value p x \<le> 100"
    by (simp add: risk_value_def w_def rd_hundred[OF assms])
qed


lemma dec_lte_Fin: "dec_lte (Fin a) (Fin b) \<longleftrightarrow> a \<le> b"
  by (auto simp: dec_lte_def dec_eq_def)

lemma risk_value_zero: "0 < p \<Longrightarrow> risk_value p 0 = 100"
  by (simp add: risk_value_def rd_one rd_hundred)

lemma risk_value_limit: "0 < p \<Longrightarrow> risk_value p (200000 * 10 ^ 18) = 1"
  by (simp add: risk_value_def rd_one)

subsection \<open>Facts about the validation\<close>

lemma rmatch_Zero [simp]: "rmatch i Zero w = False"
  by (induction w) simp_all

lemma rmatch_One [simp]: "rmatch i One w \<longleftrightarrow> w = []"
  by (cases w) simp_all

lemma rmatch_Alt [simp]: "rmatch i (Alt a b) w \<longleftrightarrow> rmatch i a w \<or> rmatch i b w"
  by (induction w arbitrary: a b) simp_all

lemma rmatch_Cls [simp]: "rmatch i (Cls cs) w \<longleftrightarrow> (\<exists>c. w = [c] \<and> chr_in i c cs)"
  by (cases w) auto

lemma rmatch_Seq: "rmatch i (Seq a b) w \<longleftrightarrow> (\<exists>u t. w = u @ t \<and> rmatch i a u \<and> rmatch i b t)"
proof (induction w arbitrary: a b)
  case Nil
  then show ?case by simp
next
  case (Cons c w)
  have split: "(\<exists>u t. c # w = u @ t \<and> rmatch i a u \<and> rmatch i b t) \<longleftrightarrow>
      (nullable a \<and> rmatch i (der i c b) w)
      \<or> (\<exists>u t. w = u @ t \<and> rmatch i (der i c a) u \<and> rmatch i b t)"
    (is "?L \<longleftrightarrow> ?R")
  proof
    assume ?L
    then obtain u t where ut: "c # w = u @ t" "rmatch i a u" "rmatch i b t" by blast
    show ?R
    proof (cases u)
      case Nil
      with ut show ?thesis by auto
    next
      case (Cons c' u')
      with ut have "c' = c" "w = u' @ t" "rmatch i (der i c a) u'" by auto
      with ut(3) show ?thesis by blast
    qed
  next
    assume ?R
    then show ?L
    proof
      assume "nullable a \<and> rmatch i (der i c b) w"
      then have "c # w = [] @ (c # w)" "rmatch i a []" "rmatch i b (c # w)" by simp_all
      then show ?L by blast
    next
      assume "\<exists>u t. w = u @ t \<and> rmatch i (der i c a) u \<and> rmatch i b t"
      then obtain u t where "w = u @ t" "rmatch i (der i c a) u" "rmatch i b t" by blast
      then have "c # w = (c # u) @ t" "rmatch i a (c # u)" "rmatch i b t" by simp_all
      then show ?L by blast
    qed
  qed
  show ?case by (simp add: Cons.IH split) blast
qed

lemma rmatch_Star_Cls: "rmatch i (Star (Cls cs)) w \<longleftrightarrow> (\<forall>c \<in> set w. chr_in i c cs)"
proof (induction w)
  case Nil
  then show ?case by simp
next
  case (Cons c w)
  have "rmatch i (Star (Cls cs)) (c # w) \<longleftrightarrow> chr_in i c cs \<and> rmatch i (Star (Cls cs)) w"
    by (simp add: rmatch_Seq)
  then show ?case using Cons.IH by simp
qed

lemma rmatch_rep_Cls:
  "rmatch i (rep n (Cls cs)) w \<longleftrightarrow> length w = n \<and> (\<forall>c \<in> set w. chr_in i c cs)"
proof (induction n arbitrary: w)
  case 0
  then show ?case by auto
next
  case (Suc n)
  show ?case
  proof (cases w)
    case Nil
    then show ?thesis by simp
  next
    case (Cons c t)
    have "rmatch i (rep (Suc n) (Cls cs)) (c # t) \<longleftrightarrow> chr_in i c cs \<and> rmatch i (rep n (Cls cs)) t"
      by (simp add: rmatch_Seq)
    then show ?thesis using Suc.IH[of t] Cons by auto
  qed
qed


lemma canonicalize_other:
  assumes "c \<notin> set ''abcdefghijklmnopqrstuvwxyz''"
  shows "canonicalize c = c"
proof -
  have len: "length ''abcdefghijklmnopqrstuvwxyz'' = length ''ABCDEFGHIJKLMNOPQRSTUVWXYZ''" by simp
  have "map_of (zip ''abcdefghijklmnopqrstuvwxyz'' ''ABCDEFGHIJKLMNOPQRSTUVWXYZ'') c = None"
    using map_of_zip_is_None[OF len, of c] assms by blast
  then show ?thesis by (simp only: canonicalize_def option.case)
qed

lemma canonicalize_hex_chars:
  "map canonicalize ''abcdefABCDEF0123456789'' = ''ABCDEFABCDEF0123456789''"
  by (simp add: canonicalize_def)

lemma canonicalize_hex_class:
  "chr_in True c ''abcdefABCDEF0123456789'' \<longleftrightarrow> c \<in> set ''0123456789abcdefABCDEF''"
proof (cases "c \<in> set ''abcdefghijklmnopqrstuvwxyz''")
  case True
  then show ?thesis
    unfolding chr_in_def if_True canonicalize_hex_chars
    by (auto simp: canonicalize_def)
next
  case False
  then show ?thesis
    unfolding chr_in_def if_True canonicalize_hex_chars canonicalize_other[OF False]
    by auto
qed

lemma canonicalize_zero_class: "chr_in True c ''0'' \<longleftrightarrow> c = CHR ''0''"
proof (cases "c \<in> set ''abcdefghijklmnopqrstuvwxyz''")
  case True
  then show ?thesis by (auto simp: chr_in_def canonicalize_def)
next
  case False
  then show ?thesis
    unfolding chr_in_def if_True canonicalize_other[OF False]
    by (simp add: canonicalize_def)
qed

lemma canonicalize_x_class:
  "chr_in True c ''x'' \<or> chr_in True c ''X'' \<longleftrightarrow> c = CHR ''x'' \<or> c = CHR ''X''"
proof (cases "c \<in> set ''abcdefghijklmnopqrstuvwxyz''")
  case True
  then show ?thesis by (auto simp: chr_in_def canonicalize_def)
next
  case False
  then show ?thesis
    unfolding chr_in_def if_True canonicalize_other[OF False]
    by (auto simp: canonicalize_def)
qed


lemma rmatch_Seq_Cls:
  "rmatch i (Seq (Cls cs) b) w \<longleftrightarrow> (\<exists>c t. w = c # t \<and> chr_in i c cs \<and> rmatch i b t)"
  by (cases w) (auto simp: rmatch_Seq)

lemma rmatch_Seq_Alt_Cls:
  "rmatch i (Seq (Alt (Cls xs) (Cls ys)) b) w \<longleftrightarrow>
     (\<exists>c t. w = c # t \<and> (chr_in i c xs \<or> chr_in i c ys) \<and> rmatch i b t)"
  by (cases w) (auto simp: rmatch_Seq)

lemma rmatch_plus_Cls:
  "rmatch i (Seq (Cls cs) (Star (Cls cs))) w \<longleftrightarrow> w \<noteq> [] \<and> (\<forall>c\<in>set w. chr_in i c cs)"
proof -
  have "rmatch i (Seq (Cls cs) (Star (Cls cs))) w \<longleftrightarrow>
      (\<exists>c t. w = c # t \<and> chr_in i c cs \<and> (\<forall>d\<in>set t. chr_in i d cs))"
    by (simp only: rmatch_Seq_Cls rmatch_Star_Cls)
  also have "\<dots> \<longleftrightarrow> w \<noteq> [] \<and> (\<forall>c\<in>set w. chr_in i c cs)"
    by (cases w) auto
  finally show ?thesis .
qed

lemma prefix_shape:
  "(\<exists>c t. w = c # t \<and> c = CHR ''0''
      \<and> (\<exists>c' t'. t = c' # t' \<and> (c' = CHR ''x'' \<or> c' = CHR ''X'') \<and> P t'))
   \<longleftrightarrow> (\<exists>h. (w = ''0x'' @ h \<or> w = ''0X'' @ h) \<and> P h)"
  by auto

lemma address_regex_iff:
  "rmatch True address_regex w \<longleftrightarrow>
     (\<exists>h. (w = ''0x'' @ h \<or> w = ''0X'' @ h) \<and> length h = 40
          \<and> set h \<subseteq> set ''0123456789abcdefABCDEF'')"
proof -
  have "rmatch True address_regex w \<longleftrightarrow>
      (\<exists>c t. w = c # t \<and> c = CHR ''0''
        \<and> (\<exists>c' t'. t = c' # t' \<and> (c' = CHR ''x'' \<or> c' = CHR ''X'')
              \<and> (length t' = 40 \<and> set t' \<subseteq> set ''0123456789abcdefABCDEF'')))"
    unfolding address_regex_def
    by (simp only: rmatch_Seq_Cls rmatch_Seq_Alt_Cls rmatch_rep_Cls canonicalize_zero_class
        canonicalize_x_class canonicalize_hex_class subset_eq)
  then show ?thesis by (simp only: prefix_shape)
qed

lemma amount_regex_iff:
  "rmatch False amount_regex w \<longleftrightarrow> w \<noteq> [] \<and> set w \<subseteq> set ''0123456789''"
  unfolding amount_regex_def
  by (simp only: rmatch_plus_Cls chr_in_def if_False subset_eq)

lemma joi_validate_empty_iff:
  "joi_validate True checks = [] \<longleftrightarrow> list_all snd checks"
  by (induction checks) (auto simp: joi_validate_def)

lemma joi_validate_first:
  "joi_validate True checks = take 1 (joi_validate False checks)"
  by (simp add: joi_validate_def)

lemma nonempty_prefixed:
  "(a \<noteq> [] \<and> (\<exists>h. (a = ''0x'' @ h \<or> a = ''0X'' @ h) \<and> P h))
   \<longleftrightarrow> (\<exists>h. (a = ''0x'' @ h \<or> a = ''0X'' @ h) \<and> P h)"
  by auto

lemma nonempty_min1:
  "(c \<noteq> [] \<and> (c \<noteq> [] \<and> Q) \<and> 1 \<le> length c) \<longleftrightarrow> (c \<noteq> [] \<and> Q)"
  by (cases c) auto

lemma validate_accepts_iff:
  "validateQuoteParameters a c cur per = [] \<longleftrightarrow>
     (\<exists>h. (a = ''0x'' @ h \<or> a = ''0X'' @ h) \<and> length h = 40
          \<and> set h \<subseteq> set ''0123456789abcdefABCDEF'')
     \<and> (c \<noteq> [] \<and> set c \<subseteq> set ''0123456789'')
     \<and> (cur = ''ETH'' \<or> cur = ''DAI'')
     \<and> (30 \<le> per \<and> per \<le> 365)"
proof -
  have "validateQuoteParameters a c cur per = [] \<longleftrightarrow>
      (a \<noteq> [] \<and> rmatch True address_regex a)
      \<and> (c \<noteq> [] \<and> rmatch False amount_regex c \<and> 1 \<le> length c)
      \<and> (cur = ''ETH'' \<or> cur = ''DAI'') \<and> (30 \<le> per \<and> per \<le> 365)"
    by (simp add: validateQuoteParameters_def quoteSchema_def joi_validate_empty_iff)
  then show ?thesis
    by (simp only: address_regex_iff amount_regex_iff nonempty_prefixed nonempty_min1)
qed

lemma address_example_ok:
  "rmatch True address_regex ''0x51042c4d8936a7764d18370a6a0762b860bb8e07''"
  unfolding address_regex_iff by simp

lemma address_example_unprefixed:
  "\<not> rmatch True address_regex ''51042c4d8936a7764d18370a6a0762b860bb8e07''"
  unfolding address_regex_iff by simp

lemma getQuote_invalid:
  "validateQuoteParameters a c cur per \<noteq> [] \<Longrightarrow>
   getQuote lib p cd key now a c cur per = Inl (InvalidParameters (validateQuoteParameters a c cur per))"
  by (simp add: getQuote_def Let_def)

lemma validate_example_ok:
  "validateQuoteParameters ''0x51042c4d8936a7764d18370a6a0762b860bb8e07'' ''1000'' ''ETH'' 100 = []"
  unfolding validate_accepts_iff by simp

lemma validate_example_zero:
  "validateQuoteParameters ''0x51042c4d8936a7764d18370a6a0762b860bb8e07'' ''0'' ''ETH'' 100 = []"
  unfolding validate_accepts_iff by simp

lemma amount_example_ok:
  "rmatch False amount_regex ''1000''"
  unfolding amount_regex_iff by simp

lemma amount_example_letters:
  "\<not> rmatch False amount_regex ''abc''"
  unfolding amount_regex_iff by simp

lemma address_example_letters:
  "\<not> rmatch True address_regex ''xyz''"
  unfolding address_regex_iff by simp

lemma validate_example_unprefixed:
  "validateQuoteParameters ''51042c4d8936a7764d18370a6a0762b860bb8e07'' ''1000'' ''ETH'' 100
     = [''contractAddress'']"
  by (simp add: validateQuoteParameters_def quoteSchema_def joi_validate_def
        address_example_unprefixed del: rmatch.simps)

lemma schema_example_all_wrong:
  "quoteSchema ''xyz'' ''abc'' ''BTC'' 10 =
     [(''contractAddress'', False), (''coverAmount'', False), (''currency'', False), (''period'', False)]"
  by (simp add: quoteSchema_def address_example_letters amount_example_letters del: rmatch.simps)

lemma validate_example_currency:
  "validateQuoteParameters ''0x51042c4d8936a7764d18370a6a0762b860bb8e07'' ''1000'' ''BTC'' 100
     = [''currency'']"
  by (simp add: validateQuoteParameters_def quoteSchema_def joi_validate_def address_example_ok
        amount_example_ok del: rmatch.simps)

subsection \<open>Facts about the request\<close>

lemma toUpperCase_supported:
  "toUpperCase ''ETH'' = ''ETH''" "toUpperCase ''DAI'' = ''DAI''"
  by (simp_all add: toUpperCase_def canonicalize_def)

lemma validated_currency_rate:
  assumes "validateQuoteParameters a c cur per = []"
  shows "\<exists>r. getCurrencyRate cd (toUpperCase cur) = Inr r"
proof -
  have "cur = ''ETH'' \<or> cur = ''DAI''"
    using assms unfolding validate_accepts_iff by blast
  then show ?thesis
    by (auto simp add: getCurrencyRate_def toUpperCase_supported)
qed

lemma signQuote_uncoverable:
  "signQuote lib \<lparr> quoteData = QuoteUncoverable e g x, contract = ca \<rparr> qa key = Inl TypeError"
  by (simp add: signQuote_def)

lemma calculateQuote_zero_stake:
  "calculateQuote p amt per cur rate nxm (Fin 0) mcr now =
     QuoteUncoverable ''Uncoverable'' now \<lceil>real_of_int now / 1000 + 3600\<rceil>"
  by (simp add: calculateQuote_def dec_eq_def Let_def)

lemma getNetStakedNxm_zero_example:
  "getNetStakedNxm 20 0 0 [] = Fin 0"
  by (simp add: getNetStakedNxm_def dec_sub_def)

subsection \<open>Facts about signing\<close>

lemma dec_div_Fin: "b \<noteq> 0 \<Longrightarrow> dec_div p (Fin a) (Fin b) = Fin (rd p (a / b))"
  by simp


lemma decimalToBN_exponential:
  "10 ^ 21 \<le> \<bar>\<lfloor>a\<rfloor>\<bar> \<Longrightarrow> decimalToBN (Fin a) = BNInvalid"
  by (simp add: toExpPos_def)

text \<open>
  A cover of 1000 ETH for 365 days on a contract with 200000 NXM of net stake, at a
  token price of 0.01 ETH and a minimum capital of 100000 ETH, step by step at the
  library's 20 digits.
\<close>

lemma rd20_9: "rd 20 (200000 * 10 ^ 18 * 10 ^ 16) = 2 * 10 ^ 39"
  by (subst rd_eval[where e=39]) simp_all
lemma rd20_10: "rd 20 (100000 * 10 ^ 18 * (2 / 10)) = 2 * 10 ^ 22"
  by (subst rd_eval[where e=22]) simp_all
lemma rd20_11: "rd 20 (1000 * 10 ^ 18) = 1000 * 10 ^ 18"
  by (subst rd_eval[where e=21]) simp_all
lemma rd20_12: "rd 20 (1000 * 10 ^ 18 * 1) = 1000 * 10 ^ 18"
  by (subst rd_eval[where e=21]) simp_all
lemma rd20_13: "rd 20 (1000 * 10 ^ 18 / 100) = 10 * 10 ^ 18"
  by (subst rd_eval[where e=19]) simp_all
lemma rd20_14: "rd 20 (3 / 10 + 1) = 13 / 10"
  by (subst rd_eval[where e=0]) simp_all
lemma rd20_15: "rd 20 (10 * 10 ^ 18 * (13 / 10)) = 13 * 10 ^ 18"
  by (subst rd_eval[where e=19]) simp_all
lemma rd20_16: "rd 20 (13 * 10 ^ 18 / (36525 / 100)) = 35592060232717316906 / 1000"
  by (subst rd_eval[where e=16]) simp_all
lemma rd20_17: "rd 20 (35592060232717316906 / 1000 * 365) = 12991101984941820671"
  by (subst rd_eval[where e=19]) simp_all
lemma rd20_18: "rd 20 (12991101984941820671 / 10 ^ 18) = 12991101984941820671 / 10 ^ 18"
  by (subst rd_eval[where e=1]) simp_all
lemma rd20_19: "rd 20 (12991101984941820671 / 10 ^ 18 * 10 ^ 18) = 12991101984941820671"
  by (subst rd_eval[where e=19]) simp_all
lemma rd20_20: "rd 20 (12991101984941820671 / 10 ^ 16) = 12991101984941820671 / 10 ^ 16"
  by (subst rd_eval[where e=3]) simp_all
lemma rd20_21: "rd 20 (12991101984941820671 / 10 ^ 16 * 10 ^ 18) = 1299110198494182067100"
  by (subst rd_eval[where e=21]) simp_all
lemma rd20_22: "rd 20 (1000 * 10 ^ 18 / 10 ^ 18) = 1000"
  by (subst rd_eval[where e=3]) simp_all

lemma capacity_example_3:
  "calculateCapacity 20 (Fin (200000 * 10 ^ 18)) (Fin (10 ^ 16)) (Fin (100000 * 10 ^ 18))
     = Fin (2000 * 10 ^ 18)"
  by (subst calculateCapacity_rounded) (simp_all only: rd20_9 rd20_10, simp_all)

lemma risk_example_3: "calculateRisk 20 (Fin (200000 * 10 ^ 18)) = Fin 1"
  using risk_value_limit[of 20] calculateRisk_Fin[of 20 "200000 * 10 ^ 18"] by simp

lemma price_example_3:
  "calculatePrice 20 (Fin (1000 * 10 ^ 18)) (Fin 1) COVER_PRICE_SURPLUS_MARGIN 365
     = Fin 12991101984941820671"
proof -
  have a: "dec_mul 20 (Fin (1000 * 10 ^ 18)) (Fin 1) = Fin (1000 * 10 ^ 18)"
    by (simp only: dec_mul.simps rd20_12)
  have b: "dec_div 20 (Fin (1000 * 10 ^ 18)) (Fin 100) = Fin (10 * 10 ^ 18)"
    by (subst dec_div_Fin, simp) (simp only: rd20_13)
  have c: "dec_add 20 (Fin (3 / 10)) (Fin 1) = Fin (13 / 10)"
    by (simp only: dec_add.simps rd20_14)
  have d: "dec_mul 20 (Fin (10 * 10 ^ 18)) (Fin (13 / 10)) = Fin (13 * 10 ^ 18)"
    by (simp only: dec_mul.simps rd20_15)
  have e: "dec_div 20 (Fin (13 * 10 ^ 18)) (Fin (36525 / 100)) = Fin (35592060232717316906 / 1000)"
    by (subst dec_div_Fin, simp) (simp only: rd20_16)
  have f: "dec_mul 20 (Fin (35592060232717316906 / 1000)) (Fin 365) = Fin 12991101984941820671"
    by (simp only: dec_mul.simps rd20_17)
  show ?thesis
    unfolding calculatePrice_def Let_def COVER_PRICE_SURPLUS_MARGIN_def DAYS_PER_YEAR_def
    by (simp only: a b c d e f)
qed

lemma quote_example_3:
  "calculateQuote 20 (Fin 1000) 365 ''ETH'' (Fin (10 ^ 18)) (Fin (10 ^ 16))
      (Fin (200000 * 10 ^ 18)) (Fin (100000 * 10 ^ 18)) 1579586400000
     = QuoteCoverable ''ETH'' 365 (Fin 1000) (Fin 12991101984941820671)
         (Fin 1299110198494182067100) 1579590000 1579586400000"
proof -
  have z: "dec_eq (Fin (200000 * 10 ^ 18)) (Fin 0) = False"
    by (simp add: dec_eq_def)
  have t: "\<lceil>real_of_int 1579586400000 / 1000 + 3600\<rceil> = 1579590000"
    by simp
  have a: "dec_mul 20 (Fin 1000) (Fin (10 ^ 18)) = Fin (1000 * 10 ^ 18)"
    by (simp only: dec_mul.simps rd20_11)
  have b: "utils_min (Fin (2000 * 10 ^ 18)) (Fin (1000 * 10 ^ 18)) = Fin (1000 * 10 ^ 18)"
    by (simp add: utils_min_Fin)
  have c: "dec_div 20 (Fin 12991101984941820671) (Fin (10 ^ 18))
             = Fin (12991101984941820671 / 10 ^ 18)"
    by (subst dec_div_Fin, simp) (simp only: rd20_18)
  have d: "dec_mul 20 (Fin (12991101984941820671 / 10 ^ 18)) (Fin (10 ^ 18))
             = Fin 12991101984941820671"
    by (simp only: dec_mul.simps rd20_19)
  have e: "dec_div 20 (Fin 12991101984941820671) (Fin (10 ^ 16))
             = Fin (12991101984941820671 / 10 ^ 16)"
    by (subst dec_div_Fin, simp) (simp only: rd20_20)
  have f: "dec_mul 20 (Fin (12991101984941820671 / 10 ^ 16)) (Fin (10 ^ 18))
             = Fin 1299110198494182067100"
    by (simp only: dec_mul.simps rd20_21)
  have g: "dec_div 20 (Fin (1000 * 10 ^ 18)) (Fin (10 ^ 18)) = Fin 1000"
    by (subst dec_div_Fin, simp) (simp only: rd20_22)
  show ?thesis
    unfolding calculateQuote_def Let_def
    by (simp only: z if_False t capacity_example_3 a b risk_example_3 price_example_3 c d e f g)
qed

lemma hex_example: "hex_of_string ''ETH'' = ''455448''"
  by (simp add: hex_of_string_def hex_digit_def)

subsection \<open>Facts about rounded results\<close>









lemma calculateRisk_negative:
  assumes "0 < p" "a < 0"
  shows "calculateRisk p (Fin a) = NaN"
proof -
  define L :: real where "L = 200000 * 10 ^ 18"
  have l: "dec_mul p (Fin 200000) (Fin (10 ^ 18)) = Fin L"
    by (simp only: dec_mul.simps rd_low_risk_limit[OF assms(1)] L_def)
  have Lpos: "0 < L" by (simp add: L_def)
  have neg: "rd p (a / L) < 0"
    using rd_pos[of "- (a / L)" p] assms Lpos by (simp add: rd_minus divide_neg_pos)
  have sev: "0 < rd p (1 / 7)" "rd p (1 / 7) < 1"
  proof -
    show "0 < rd p (1 / 7)" by (rule rd_seventh_pos[OF assms(1)])
    have "rd p (1 / 7) \<le> rd p (1 / 2)" by (rule rd_mono) (simp_all add: assms(1))
    also have "rd p (1 / 2) = 1 / 2"
    proof -
      have "(10::int) ^ 1 \<le> 10 ^ p" using assms(1) by (intro power_increasing) simp_all
      then have "(5::int) < 10 ^ p" by simp
      then show ?thesis
        using rd_fix_pos[of 5 p "- 1"] by (simp add: power_int_minus)
    qed
    finally show "rd p (1 / 7) < 1" by simp
  qed
  have notint: "rd p (1 / 7) \<notin> \<int>"
  proof
    assume "rd p (1 / 7) \<in> \<int>"
    then obtain k :: int where k: "rd p (1 / 7) = of_int k" by (auto elim: Ints_cases)
    with sev have "0 < k" "k < 1" by simp_all
    then show False by simp
  qed
  show ?thesis
    unfolding calculateRisk_def Let_def l
    using neg sev notint Lpos by (simp add: dec_sub_def utils_max_def)
qed

lemma capacity_example_rounded:
  "calculateCapacity 20 (Fin 123456789012345678901234) (Fin 17167381974248927)
     (Fin (13500 * 10 ^ 18)) = Fin 2119429854289196199500"
proof -
  have a: "rd 20 (123456789012345678901234 * 17167381974248927)
             = 2119429854289196199500 * 10 ^ 18"
    by (subst rd_eval[where e=39]) simp_all
  show ?thesis
    by (subst calculateCapacity_rounded) (simp_all only: a rd20_2, simp_all)
qed

lemma capacity_example_formula:
  "min (123456789012345678901234 * 17167381974248927 / 10 ^ 18) (13500 * 10 ^ 18 * (2 / 10))
     = (2119429854289196199544312870767763475918 / 10 ^ 18 :: real)"
  by simp

subsection \<open>Facts about the packed encoding\<close>

lemma length_be_bytes [simp]: "length (be_bytes k n) = k"
  by (induction k arbitrary: n) simp_all




































section \<open>The claims\<close>

text \<open>
  C6.  For every quote \<^verbatim>\<open>calculateQuote\<close> returns, coverable or uncoverable, and every
  generation time \<open>now\<close> in milliseconds: the quote carries \<open>generatedAt = now\<close> and
  \<open>expiresAt = ceil (generatedAt / 1000 + 3600)\<close>, which in integer arithmetic is
  \<open>(generatedAt + 999) div 1000 + 3600\<close>.  The expiration, in seconds, lies one hour
  after the generation time rounded up to the next whole second.
\<close>

theorem calculateQuote_expiresAt:
  "expiresAt (calculateQuote p A d c rate P S M now) = \<lceil>real_of_int now / 1000 + 3600\<rceil>
   \<and> generatedAt (calculateQuote p A d c rate P S M now) = now
   \<and> expiresAt (calculateQuote p A d c rate P S M now) = (now + 999) div 1000 + 3600
   \<and> 3600000 \<le> 1000 * expiresAt (calculateQuote p A d c rate P S M now) - now
   \<and> 1000 * expiresAt (calculateQuote p A d c rate P S M now) - now < 3601000"
proof -
  have e: "expiresAt (calculateQuote p A d c rate P S M now) = \<lceil>real_of_int now / 1000 + 3600\<rceil>"
    by (simp add: calculateQuote_def Let_def)
  have g: "generatedAt (calculateQuote p A d c rate P S M now) = now"
    by (simp add: calculateQuote_def Let_def)
  have i: "expiresAt (calculateQuote p A d c rate P S M now) = (now + 999) div 1000 + 3600"
    unfolding e by (rule ceil_ms)
  define q where "q = \<lceil>real_of_int now / 1000\<rceil>"
  have b: "now \<le> 1000 * q" "1000 * q < now + 1000"
    using ceil_ms_bounds[of now] by (simp_all add: q_def)
  have x: "expiresAt (calculateQuote p A d c rate P S M now) = q + 3600"
    unfolding e by (simp add: q_def)
  have lo: "3600000 \<le> 1000 * expiresAt (calculateQuote p A d c rate P S M now) - now"
    unfolding x using b by (simp add: algebra_simps)
  have hi: "1000 * expiresAt (calculateQuote p A d c rate P S M now) - now < 3601000"
    unfolding x using b by (simp add: algebra_simps)
  show ?thesis by (rule conjI[OF e conjI[OF g conjI[OF i conjI[OF lo hi]]]])
qed

lemma getNetStakedNxm_negative_example:
  "getNetStakedNxm 20 100 0 [(1, 150)] = Fin (- 50)"
proof -
  have "rd 20 (- 50) = - 50"
    using rd_fix_pos[of 5 20 1] by (simp add: rd_minus)
  then show ?thesis by (simp add: getNetStakedNxm_def dec_sub_def)
qed

text \<open>
  C9.  \<^verbatim>\<open>calculateQuote\<close> returns the uncoverable shape exactly when the net staked
  collateral is zero.  For a strictly negative net stake it returns a coverable quote
  whose amount, price and price in NXM are computed by \<^verbatim>\<open>calculateCapacity\<close>,
  \<^verbatim>\<open>calculateRisk\<close> and \<^verbatim>\<open>calculatePrice\<close> on the negative value.  The collateral
  computation can return such a value: a stake of 100 with a pending unstake of 150
  gives -50.
\<close>

theorem calculateQuote_uncoverable_iff_zero:
  "((\<exists>e g x. calculateQuote p A d c rate P S M now = QuoteUncoverable e g x) \<longleftrightarrow> S = Fin 0)
   \<and> (a < 0 \<longrightarrow>
        calculateQuote p A d c rate P (Fin a) M now =
          QuoteCoverable c d
            (dec_div p (utils_min (calculateCapacity p (Fin a) P M) (dec_mul p A rate)) rate)
            (dec_mul p
               (dec_div p
                  (calculatePrice p (utils_min (calculateCapacity p (Fin a) P M) (dec_mul p A rate))
                     (calculateRisk p (Fin a)) COVER_PRICE_SURPLUS_MARGIN d)
                  rate)
               (Fin (10 ^ 18)))
            (dec_mul p
               (dec_div p
                  (calculatePrice p (utils_min (calculateCapacity p (Fin a) P M) (dec_mul p A rate))
                     (calculateRisk p (Fin a)) COVER_PRICE_SURPLUS_MARGIN d)
                  P)
               (Fin (10 ^ 18)))
            \<lceil>real_of_int now / 1000 + 3600\<rceil> now)
   \<and> getNetStakedNxm 20 100 0 [(1, 150)] = Fin (- 50)"
proof (intro conjI impI)
  show "(\<exists>e g x. calculateQuote p A d c rate P S M now = QuoteUncoverable e g x) \<longleftrightarrow> S = Fin 0"
    by (cases "S = Fin 0") (simp_all add: calculateQuote_def Let_def dec_eq_def)
next
  assume "a < 0"
  then have "\<not> dec_eq (Fin a) (Fin 0)" by (simp add: dec_eq_def)
  then show "calculateQuote p A d c rate P (Fin a) M now =
          QuoteCoverable c d
            (dec_div p (utils_min (calculateCapacity p (Fin a) P M) (dec_mul p A rate)) rate)
            (dec_mul p
               (dec_div p
                  (calculatePrice p (utils_min (calculateCapacity p (Fin a) P M) (dec_mul p A rate))
                     (calculateRisk p (Fin a)) COVER_PRICE_SURPLUS_MARGIN d)
                  rate)
               (Fin (10 ^ 18)))
            (dec_mul p
               (dec_div p
                  (calculatePrice p (utils_min (calculateCapacity p (Fin a) P M) (dec_mul p A rate))
                     (calculateRisk p (Fin a)) COVER_PRICE_SURPLUS_MARGIN d)
                  P)
               (Fin (10 ^ 18)))
            \<lceil>real_of_int now / 1000 + 3600\<rceil> now"
    by (simp only: calculateQuote_def Let_def if_False)
next
  show "getNetStakedNxm 20 100 0 [(1, 150)] = Fin (- 50)"
    by (rule getNetStakedNxm_negative_example)
qed

theorem calculateQuote_uncoverable_iff_zero_witness:
  "(- 50 :: real) < 0 \<and>
   (\<exists>am pr pn. calculateQuote 20 (Fin 1000) 100 ''ETH'' (Fin (10 ^ 18)) (Fin 17167381974248927)
        (getNetStakedNxm 20 100 0 [(1, 150)]) (Fin (13500 * 10 ^ 18)) 1579586400000
      = QuoteCoverable ''ETH'' 100 am pr pn 1579590000 1579586400000)"
proof -
  have h: "(- 50 :: real) < 0" by simp
  have c: "\<lceil>real_of_int 1579586400000 / 1000 + 3600\<rceil> = (1579590000::int)" by simp
  from calculateQuote_uncoverable_iff_zero[of 20 "Fin 1000" 100 "''ETH''" "Fin (10 ^ 18)"
      "Fin 17167381974248927" "Fin 0" "Fin (13500 * 10 ^ 18)" 1579586400000 "- 50"] h
  show ?thesis unfolding c by (simp only: simp_thms) blast
qed

subsection \<open>Capacity\<close>

text \<open>
  What the code computes for the capacity: no operation in it can fail, and for finite
  operands the result is \<open>min (round (S * P) / 1e18, round (M * 0.2))\<close>, each product
  rounded once to the \<open>p\<close> significant digits of the library.  It is the exact minimum
  when neither product needs rounding, for positive operands it is within the relative
  error of one rounding of it, and it is zero when \<open>S\<close> is zero and \<open>M\<close> is not negative.
\<close>

lemma calculateCapacity_rounding:
  "calculateCapacity p S P M =
     utils_min (dec_div p (dec_mul p S P) (Fin (10 ^ 18))) (dec_mul p M (Fin (2 / 10)))
   \<and> (0 < p \<longrightarrow>
        calculateCapacity p (Fin a) (Fin b) (Fin m) =
          Fin (min (rd p (a * b) / 10 ^ 18) (rd p (m * (2 / 10)))))
   \<and> (0 < p \<and> rd p (a * b) = a * b \<and> rd p (m * (2 / 10)) = m * (2 / 10) \<longrightarrow>
        calculateCapacity p (Fin a) (Fin b) (Fin m) = Fin (min (a * b / 10 ^ 18) (m * (2 / 10))))
   \<and> (0 < p \<and> 0 < a \<and> 0 < b \<and> 0 < m \<longrightarrow>
        (\<exists>c. calculateCapacity p (Fin a) (Fin b) (Fin m) = Fin c
           \<and> min (a * b / 10 ^ 18) (m * (2 / 10)) * (1 - rel_err p) \<le> c
           \<and> c \<le> min (a * b / 10 ^ 18) (m * (2 / 10)) * (1 + rel_err p)))
   \<and> (0 \<le> m \<longrightarrow> calculateCapacity p (Fin 0) (Fin b) (Fin m) = Fin 0)"
proof (intro conjI impI)
  show "calculateCapacity p S P M =
     utils_min (dec_div p (dec_mul p S P) (Fin (10 ^ 18))) (dec_mul p M (Fin (2 / 10)))"
    by (simp add: calculateCapacity_def CONTRACT_CAPACITY_LIMIT_PERCENT_def)
next
  assume "0 < p"
  then show "calculateCapacity p (Fin a) (Fin b) (Fin m) =
          Fin (min (rd p (a * b) / 10 ^ 18) (rd p (m * (2 / 10))))"
    by (rule calculateCapacity_rounded)
next
  assume h: "0 < p \<and> rd p (a * b) = a * b \<and> rd p (m * (2 / 10)) = m * (2 / 10)"
  then have p: "0 < p" and e1: "rd p (a * b) = a * b"
    and e2: "rd p (m * (2 / 10)) = m * (2 / 10)" by blast+
  show "calculateCapacity p (Fin a) (Fin b) (Fin m) = Fin (min (a * b / 10 ^ 18) (m * (2 / 10)))"
    using calculateCapacity_rounded[OF p, of a b m] by (simp only: e1 e2)
next
  assume h: "0 < p \<and> 0 < a \<and> 0 < b \<and> 0 < m"
  then have "calculateCapacity p (Fin a) (Fin b) (Fin m) =
      Fin (min (rd p (a * b) / 10 ^ 18) (rd p (m * (2 / 10))))"
    using calculateCapacity_rounded[of p a b m] by simp
  then show "\<exists>c. calculateCapacity p (Fin a) (Fin b) (Fin m) = Fin c
           \<and> min (a * b / 10 ^ 18) (m * (2 / 10)) * (1 - rel_err p) \<le> c
           \<and> c \<le> min (a * b / 10 ^ 18) (m * (2 / 10)) * (1 + rel_err p)"
    using calculateCapacity_bounds[of p a b m] h by blast
next
  assume "0 \<le> m"
  then have "0 \<le> rd p (m * (2 / 10))" by (intro rd_nonneg) simp
  then show "calculateCapacity p (Fin 0) (Fin b) (Fin m) = Fin 0"
    by (simp add: calculateCapacity_Fin)
qed

lemma calculateCapacity_rounding_example:
  "(0::nat) < 20 \<and> (0::real) < 120000 * 10 ^ 18 \<and> (0::real) < 17167381974248927 \<and> (0::real) < 13500 * 10 ^ 18
   \<and> rd 20 (13500 * 10 ^ 18 * (2 / 10)) = 13500 * 10 ^ 18 * (2 / 10)
   \<and> calculateCapacity 20 (Fin (120000 * 10 ^ 18)) (Fin 17167381974248927) (Fin (13500 * 10 ^ 18))
       = Fin (20600858369098712400 * 10 ^ 2)
   \<and> calculateCapacity 20 (Fin 0) (Fin 17167381974248927) (Fin (13500 * 10 ^ 18)) = Fin 0"
proof -
  have r1: "rd 20 (120000 * 10 ^ 18 * 17167381974248927) = 20600858369098712400 * 10 ^ 20"
    by (subst rd_eval[where e=39]) simp_all
  have r2: "rd 20 (13500 * 10 ^ 18 * (2 / 10)) = 13500 * 10 ^ 18 * (2 / 10)"
    by (subst rd_eval[where e=21]) simp_all
  have p: "(0::nat) < 20" by simp
  from calculateCapacity_rounding[of 20 "Fin 0" "Fin 0" "Fin 0" "120000 * 10 ^ 18" 17167381974248927 "13500 * 10 ^ 18"]
  have "calculateCapacity 20 (Fin (120000 * 10 ^ 18)) (Fin 17167381974248927) (Fin (13500 * 10 ^ 18))
       = Fin (min (rd 20 (120000 * 10 ^ 18 * 17167381974248927) / 10 ^ 18) (rd 20 (13500 * 10 ^ 18 * (2 / 10))))"
    and "calculateCapacity 20 (Fin 0) (Fin 17167381974248927) (Fin (13500 * 10 ^ 18)) = Fin 0"
    using p by simp_all
  then show ?thesis unfolding r1 r2 by simp
qed

text \<open>
  Claim C3 does not hold of the code: \<^verbatim>\<open>calculateCapacity(S, P, M)\<close> is not
  \<open>min (S * P / 1e18, M * 0.2)\<close> for all positive \<open>S\<close>, \<open>P\<close> and \<open>M\<close>.  The library keeps
  20 significant digits and the product \<open>S * P\<close> has about 40.  For a stake of
  123456.789012345678901234 tokens at a price of 17167381974248927 wei and a minimum
  capital of 13500 ETH the code returns 2119429854289196199500 wei, where the formula
  gives 2119429854289196199544.31.
\<close>

theorem calculateCapacity_rounds:
  "calculateCapacity 20 (Fin 123456789012345678901234) (Fin 17167381974248927)
     (Fin (13500 * 10 ^ 18)) = Fin 2119429854289196199500
   \<and> min (123456789012345678901234 * 17167381974248927 / 10 ^ 18) (13500 * 10 ^ 18 * (2 / 10))
       = (2119429854289196199544312870767763475918 / 10 ^ 18 :: real)"
  by (rule conjI[OF capacity_example_rounded capacity_example_formula])

subsection \<open>Offered amount\<close>

text \<open>
  How far the rounding can carry the offered amount.  For a positive requested amount,
  currency rate, net stake, token price and minimum capital, the offered amount is at
  most the requested amount times \<open>(1 + e)^2\<close>, and the offered amount times the
  currency rate is at most the capacity times \<open>1 + e\<close>, where \<open>e = rel_err p\<close> is the
  relative error of one rounding to \<open>p\<close> significant digits.  When the rate is
  \<open>10^18\<close> (an ETH quote) and the requested amount has at most \<open>p\<close> significant digits,
  nothing is rounded and both bounds of the claim hold.
\<close>

lemma offered_amount_rounding_bounds:
  assumes "0 < p" "0 < a" "0 < r" "0 < s" "0 < q" "0 < m"
  shows "\<exists>off cap.
           amount (calculateQuote p (Fin a) d c (Fin r) (Fin q) (Fin s) (Fin m) now) = Fin off
         \<and> calculateCapacity p (Fin s) (Fin q) (Fin m) = Fin cap
         \<and> off \<le> a * (1 + rel_err p) * (1 + rel_err p)
         \<and> off * r \<le> cap * (1 + rel_err p)
         \<and> (r = 10 ^ 18 \<and> rd p a = a \<longrightarrow> off \<le> a \<and> off * r \<le> cap)"
proof -
  define cap where "cap = min (rd p (s * q) / 10 ^ 18) (rd p (m * (2 / 10)))"
  define off where "off = rd p (min cap (rd p (a * r)) / r)"
  have sn: "s \<noteq> 0" and rn: "r \<noteq> 0" using assms by simp_all
  have A: "amount (calculateQuote p (Fin a) d c (Fin r) (Fin q) (Fin s) (Fin m) now) = Fin off"
    unfolding off_def cap_def by (rule offered_rounded[OF assms(1) sn rn])
  have B: "calculateCapacity p (Fin s) (Fin q) (Fin m) = Fin cap"
    unfolding cap_def by (rule calculateCapacity_rounded[OF assms(1)])
  have "0 < rd p (s * q)" using assms by (intro rd_pos) simp_all
  moreover have "0 < rd p (m * (2 / 10))" using assms by (intro rd_pos) simp_all
  ultimately have cpos: "0 < cap" by (simp add: cap_def)
  have C: "off \<le> a * (1 + rel_err p) * (1 + rel_err p)"
    unfolding off_def by (rule offered_bounds(1)[OF assms(1,2,3) cpos])
  have D: "off * r \<le> cap * (1 + rel_err p)"
    unfolding off_def by (rule offered_bounds(2)[OF assms(1,2,3) cpos])
  have E: "off \<le> a \<and> off * r \<le> cap" if h: "r = 10 ^ 18 \<and> rd p a = a"
  proof -
    have r18: "r = 10 ^ 18" and ra: "rd p a = a" using h by simp_all
    have e1: "rd p (a * r) = a * r"
      using rd_scale[of p a 18] ra by (simp add: r18)
    have fixc: "rd p cap = cap" unfolding cap_def by (rule capacity_value_fixed[OF assms(1)])
    have fixm: "rd p (min cap (a * r)) = min cap (a * r)"
      using fixc e1 by (simp add: min_def)
    have e2: "rd p (min cap (a * r) / r) = min cap (a * r) / r"
      unfolding r18 by (simp only: rd_div_pow10 fixm[unfolded r18])
    show ?thesis
      unfolding off_def using offered_exact[OF assms(3) e1 e2] by simp
  qed
  from A B C D E show ?thesis by blast
qed

lemma offered_amount_rounding_bounds_example:
  "(0::nat) < 20 \<and> (0::real) < 1000 \<and> (0::real) < 10 ^ 18 \<and> (0::real) < 120000 * 10 ^ 18
   \<and> (0::real) < 17167381974248927 \<and> (0::real) < 13500 * 10 ^ 18 \<and> rd 20 1000 = 1000
   \<and> (\<exists>off cap.
         amount (calculateQuote 20 (Fin 1000) 100 ''ETH'' (Fin (10 ^ 18)) (Fin 17167381974248927)
            (Fin (120000 * 10 ^ 18)) (Fin (13500 * 10 ^ 18)) 1579586400000) = Fin off
       \<and> calculateCapacity 20 (Fin (120000 * 10 ^ 18)) (Fin 17167381974248927) (Fin (13500 * 10 ^ 18)) = Fin cap
       \<and> off \<le> 1000 \<and> off * 10 ^ 18 \<le> cap)"
proof -
  have r: "rd 20 1000 = 1000" using rd_fix_pos[of 1 20 3] by simp
  have "\<exists>off cap.
         amount (calculateQuote 20 (Fin 1000) 100 ''ETH'' (Fin (10 ^ 18)) (Fin 17167381974248927)
            (Fin (120000 * 10 ^ 18)) (Fin (13500 * 10 ^ 18)) 1579586400000) = Fin off
       \<and> calculateCapacity 20 (Fin (120000 * 10 ^ 18)) (Fin 17167381974248927) (Fin (13500 * 10 ^ 18)) = Fin cap
       \<and> off \<le> 1000 \<and> off * 10 ^ 18 \<le> cap"
    using offered_amount_rounding_bounds[of 20 1000 "10 ^ 18" "120000 * 10 ^ 18" 17167381974248927
        "13500 * 10 ^ 18" 100 "''ETH''" 1579586400000] r
    by (simp only: simp_thms) auto
  then show ?thesis using r by simp
qed

text \<open>
  Claim C4 does not hold of the code: the offered amount can exceed the requested
  amount, and its value in wei can exceed the capacity.  A request for 54325 DAI at a
  rate of 4291845493562231 wei, with ample capacity, is offered 54325.000000000000001:
  the product \<open>54325 * rate\<close> has 21 digits and is rounded up before it is divided by the
  rate again.  With a stake of 25 tokens and a request above the capacity of
  429184549356223175 wei, the offered 100.00000000000001748 DAI are worth
  429184549356223175.02 wei, more than the capacity.  The comparisons are those of the
  unit test, \<^verbatim>\<open>quoteData.amount.lte(amount)\<close>.
\<close>

theorem offered_amount_exceeds:
  "\<not> dec_lte
       (amount (calculateQuote 20 (Fin 54325) 100 ''DAI'' (Fin 4291845493562231)
          (Fin 17167381974248927) (Fin (120000 * 10 ^ 18)) (Fin (13500 * 10 ^ 18)) 1579586400000))
       (Fin 54325)
   \<and> \<not> dec_lte
       (dec_mul 20
          (amount (calculateQuote 20 (Fin 800000) 100 ''DAI'' (Fin 4291845493562231)
             (Fin 17167381974248927) (Fin (25 * 10 ^ 18)) (Fin (13500 * 10 ^ 18)) 1579586400000))
          (Fin 4291845493562231))
       (calculateCapacity 20 (Fin (25 * 10 ^ 18)) (Fin 17167381974248927) (Fin (13500 * 10 ^ 18)))"
proof -
  have m: "dec_mul 20 (Fin (10000000000000001748 / 10 ^ 17)) (Fin 4291845493562231)
             = Fin (42918454935622317502 / 100)"
    by (simp only: dec_mul.simps rd20_8)
  show ?thesis
    unfolding offered_example_1 offered_example_2 capacity_example_2 m
    by (simp add: dec_lte_def dec_eq_def)
qed

subsection \<open>Risk\<close>

text \<open>
  What the code computes for the risk, with the power taken as correctly rounded.  For
  a stake \<open>S \<ge> 0\<close> it is the number \<open>risk_value p S\<close>, which lies between 1 and 100;
  for stakes \<open>0 < S1 \<le> S2\<close> the risk of \<open>S2\<close> is at most the risk of \<open>S1\<close>; the risk is
  100 at a stake of zero and 1 at 200000e18.  For a negative stake the power is NaN
  (lemma \<open>calculateRisk_negative\<close>).
\<close>

lemma calculateRisk_rounded_curve:
  "calculateRisk p S =
     utils_max (Fin 1)
       (dec_mul p (Fin 100)
          (dec_sub p (Fin 1)
             (dec_pow p (dec_div p S (dec_mul p (Fin 200000) (Fin (10 ^ 18))))
                (dec_div p (Fin 1) (Fin 7)))))
   \<and> (0 < p \<and> 0 \<le> x \<longrightarrow>
        calculateRisk p (Fin x) = Fin (risk_value p x)
        \<and> dec_lte (Fin 1) (calculateRisk p (Fin x))
        \<and> dec_lte (calculateRisk p (Fin x)) (Fin 100))
   \<and> (0 < p \<and> 0 < x \<and> x \<le> y \<longrightarrow>
        dec_lte (calculateRisk p (Fin y)) (calculateRisk p (Fin x)))
   \<and> (0 < p \<longrightarrow>
        calculateRisk p (Fin 0) = Fin 100 \<and> calculateRisk p (Fin (200000 * 10 ^ 18)) = Fin 1)"
proof (intro conjI impI)
  show "calculateRisk p S =
     utils_max (Fin 1)
       (dec_mul p (Fin 100)
          (dec_sub p (Fin 1)
             (dec_pow p (dec_div p S (dec_mul p (Fin 200000) (Fin (10 ^ 18))))
                (dec_div p (Fin 1) (Fin 7)))))"
    unfolding calculateRisk_def Let_def ..
next
  assume h: "0 < p \<and> 0 \<le> x"
  then show "calculateRisk p (Fin x) = Fin (risk_value p x)"
    using calculateRisk_Fin by blast
  from h show "dec_lte (Fin 1) (calculateRisk p (Fin x))"
    using calculateRisk_Fin[of p x] risk_value_range(1)[of p x] by (simp add: dec_lte_Fin)
  from h show "dec_lte (calculateRisk p (Fin x)) (Fin 100)"
    using calculateRisk_Fin[of p x] risk_value_range(2)[of p x] by (simp add: dec_lte_Fin)
next
  assume h: "0 < p \<and> 0 < x \<and> x \<le> y"
  then have "calculateRisk p (Fin x) = Fin (risk_value p x)"
    and "calculateRisk p (Fin y) = Fin (risk_value p y)"
    using calculateRisk_Fin[of p x] calculateRisk_Fin[of p y] by simp_all
  moreover have "risk_value p y \<le> risk_value p x"
    using risk_value_antimono[of p x y] h by simp
  ultimately show "dec_lte (calculateRisk p (Fin y)) (calculateRisk p (Fin x))"
    by (simp add: dec_lte_Fin)
next
  assume p: "0 < p"
  show "calculateRisk p (Fin 0) = Fin 100"
    using calculateRisk_Fin[OF p, of 0] risk_value_zero[OF p] by simp
  show "calculateRisk p (Fin (200000 * 10 ^ 18)) = Fin 1"
    using calculateRisk_Fin[OF p, of "200000 * 10 ^ 18"] risk_value_limit[OF p] by simp
qed

lemma calculateRisk_rounded_curve_example:
  "(0::nat) < 20 \<and> (0::real) < 120000 * 10 ^ 18 \<and> (120000 * 10 ^ 18 :: real) \<le> 200000 * 10 ^ 18
   \<and> dec_lte (calculateRisk 20 (Fin (200000 * 10 ^ 18))) (calculateRisk 20 (Fin (120000 * 10 ^ 18)))
   \<and> dec_lte (Fin 1) (calculateRisk 20 (Fin (120000 * 10 ^ 18)))
   \<and> dec_lte (calculateRisk 20 (Fin (120000 * 10 ^ 18))) (Fin 100)
   \<and> calculateRisk 20 (Fin (200000 * 10 ^ 18)) = Fin 1
   \<and> calculateRisk 20 (Fin 0) = Fin 100"
proof -
  have h0: "(0::nat) < 20" by simp
  have h1: "(0::nat) < 20 \<and> (0::real) \<le> 120000 * 10 ^ 18" by simp
  have h2: "(0::nat) < 20 \<and> (0::real) < 120000 * 10 ^ 18
      \<and> (120000 * 10 ^ 18 :: real) \<le> 200000 * 10 ^ 18" by simp
  from calculateRisk_rounded_curve[of 20 "Fin 0" "120000 * 10 ^ 18" "200000 * 10 ^ 18"] h0 h1 h2
  show ?thesis by blast
qed


subsection \<open>Accepted requests\<close>

text \<open>
  Claim C7, as the code has it.  \<^verbatim>\<open>validateQuoteParameters\<close> returns no error exactly
  when the contract address is \<^verbatim>\<open>0x\<close> or \<^verbatim>\<open>0X\<close> followed by forty hexadecimal digits
  of either case (the prefix is required), the cover amount is a non-empty text of
  decimal digits (zero and leading zeros included), the currency is \<^verbatim>\<open>ETH\<close> or \<^verbatim>\<open>DAI\<close>
  and the period lies between 30 and 365, bounds included; and on an error \<^verbatim>\<open>getQuote\<close>
  fails with it before reading the chain or computing anything.
\<close>

theorem validateQuoteParameters_accepts:
  "(validateQuoteParameters a c cur per = [] \<longleftrightarrow>
     (\<exists>h. (a = ''0x'' @ h \<or> a = ''0X'' @ h) \<and> length h = 40
          \<and> set h \<subseteq> set ''0123456789abcdefABCDEF'')
     \<and> (c \<noteq> [] \<and> set c \<subseteq> set ''0123456789'')
     \<and> (cur = ''ETH'' \<or> cur = ''DAI'')
     \<and> (30 \<le> per \<and> per \<le> 365))
   \<and> (validateQuoteParameters a c cur per \<noteq> [] \<longrightarrow>
        getQuote lib p cd key now a c cur per =
          Inl (InvalidParameters (validateQuoteParameters a c cur per)))"
  using validate_accepts_iff[of a c cur per] getQuote_invalid[of a c cur per lib p cd key now]
  by blast

text \<open>
  The claim as stated fails twice: an address of forty hexadecimal digits without
  the prefix is rejected, and the cover amount \<^verbatim>\<open>0\<close>, which is not positive, is
  accepted.
\<close>

theorem validateQuoteParameters_accepts_counterexample:
  "validateQuoteParameters ''51042c4d8936a7764d18370a6a0762b860bb8e07'' ''1000'' ''ETH'' 100 \<noteq> []
   \<and> validateQuoteParameters ''0x51042c4d8936a7764d18370a6a0762b860bb8e07'' ''0'' ''ETH'' 100 = []"
  by (simp add: validate_example_unprefixed validate_example_zero)

text \<open>
  The theorem at a request that is accepted and at one that is rejected for its
  currency.
\<close>

theorem validateQuoteParameters_accepts_witness:
  "validateQuoteParameters ''0x51042c4d8936a7764d18370a6a0762b860bb8e07'' ''1000'' ''ETH'' 100 = []
   \<and> validateQuoteParameters ''0x51042c4d8936a7764d18370a6a0762b860bb8e07'' ''1000'' ''BTC'' 100 \<noteq> []
   \<and> getQuote
        \<lparr> keccak256 = (\<lambda>b. replicate 32 0),
          ecsign = (\<lambda>h k. (27, replicate 32 1, replicate 32 2)) \<rparr>
        20
        \<lparr> daiRate = 4291845493562231, tokenPrice = 10 ^ 16, stakedNxmBN = 0,
          firstUnprocessedUnstakeAt = 0, unstakeRequests = [], lastMcrEth = 10 ^ 22,
          quotationAddress = ''0x0000000000000000000000000000000000000001'' \<rparr>
        ''00'' 1579586400000
        ''0x51042c4d8936a7764d18370a6a0762b860bb8e07'' ''1000'' ''BTC'' 100
      = Inl (InvalidParameters [''currency''])"
proof -
  have ok: "\<exists>h. (''0x51042c4d8936a7764d18370a6a0762b860bb8e07'' = ''0x'' @ h
                \<or> ''0x51042c4d8936a7764d18370a6a0762b860bb8e07'' = ''0X'' @ h)
              \<and> length h = 40 \<and> set h \<subseteq> set ''0123456789abcdefABCDEF''"
    by (rule exI[where x = "''51042c4d8936a7764d18370a6a0762b860bb8e07''"]) simp
  have am: "''1000'' \<noteq> [] \<and> set ''1000'' \<subseteq> set ''0123456789''" by simp
  have cu: "''ETH'' = ''ETH'' \<or> ''ETH'' = ''DAI''" by simp
  have pe: "(30::real) \<le> 100 \<and> (100::real) \<le> 365" by simp
  have bad: "validateQuoteParameters ''0x51042c4d8936a7764d18370a6a0762b860bb8e07'' ''1000''
               ''BTC'' 100 \<noteq> []"
    by (simp add: validate_example_currency)
  show ?thesis
    using validateQuoteParameters_accepts
            [of "''0x51042c4d8936a7764d18370a6a0762b860bb8e07''" "''1000''" "''ETH''" 100]
          validateQuoteParameters_accepts
            [of "''0x51042c4d8936a7764d18370a6a0762b860bb8e07''" "''1000''" "''BTC''" 100
                "\<lparr> keccak256 = (\<lambda>b. replicate 32 0),
                   ecsign = (\<lambda>h k. (27, replicate 32 1, replicate 32 2)) \<rparr>"
                20
                "\<lparr> daiRate = 4291845493562231, tokenPrice = 10 ^ 16, stakedNxmBN = 0,
                   firstUnprocessedUnstakeAt = 0, unstakeRequests = [], lastMcrEth = 10 ^ 22,
                   quotationAddress = ''0x0000000000000000000000000000000000000001'' \<rparr>"
                "''00''" 1579586400000]
          ok am cu pe bad validate_example_currency
    by (simp only:) blast
qed

subsection \<open>Reported violations\<close>

text \<open>
  Claim C8, as the code has it.  The schema is validated with Joi's defaults, so
  the error of \<^verbatim>\<open>validateQuoteParameters\<close> holds the first violated key in the order
  of the schema and nothing else: it is the first entry of what a validation of
  every key would report.
\<close>

theorem validateQuoteParameters_reports_first:
  "validateQuoteParameters a c cur per = take 1 (joi_validate False (quoteSchema a c cur per))
   \<and> length (validateQuoteParameters a c cur per) \<le> 1"
  by (simp add: validateQuoteParameters_def joi_validate_first)

text \<open>
  The claim as stated fails: a request violating all four constraints is reported
  with the contract address alone.
\<close>

theorem validateQuoteParameters_reports_first_counterexample:
  "joi_validate False (quoteSchema ''xyz'' ''abc'' ''BTC'' 10)
     = [''contractAddress'', ''coverAmount'', ''currency'', ''period'']
   \<and> validateQuoteParameters ''xyz'' ''abc'' ''BTC'' 10 = [''contractAddress'']"
  by (simp add: validateQuoteParameters_def joi_validate_def schema_example_all_wrong)

subsection \<open>Uncoverable quotes and signing\<close>

text \<open>
  Claim C1 does not hold of the code: \<^verbatim>\<open>getQuote\<close> hands every quote to \<^verbatim>\<open>signQuote\<close>,
  the uncoverable one included, after adding the key \<^verbatim>\<open>contract\<close> to it.  For a valid
  request on a contract whose net stake is zero, \<^verbatim>\<open>signQuote\<close> reads the currency the
  uncoverable quote does not have and \<^verbatim>\<open>getQuote\<close> fails with a TypeError instead of
  returning the three fields \<^verbatim>\<open>error\<close>, \<^verbatim>\<open>generatedAt\<close> and \<^verbatim>\<open>expiresAt\<close>.
\<close>

theorem getQuote_signs_uncoverable:
  assumes "validateQuoteParameters a c cur per = []"
    and "getNetStakedNxm p (stakedNxmBN cd) (firstUnprocessedUnstakeAt cd) (unstakeRequests cd)
           = Fin 0"
  shows "getQuote lib p cd key now a c cur per = Inl TypeError"
proof -
  obtain r where r: "getCurrencyRate cd (toUpperCase cur) = Inr r"
    using validated_currency_rate[OF assms(1)] by blast
  show ?thesis
    by (simp add: getQuote_def Let_def assms r calculateQuote_zero_stake signQuote_uncoverable)
qed

text \<open>The theorem at a valid request for a contract nobody has staked on.\<close>

theorem getQuote_signs_uncoverable_witness:
  "getQuote
     \<lparr> keccak256 = (\<lambda>b. replicate 32 0),
       ecsign = (\<lambda>h k. (27, replicate 32 1, replicate 32 2)) \<rparr>
     20
     \<lparr> daiRate = 4291845493562231, tokenPrice = 10 ^ 16, stakedNxmBN = 0,
       firstUnprocessedUnstakeAt = 0, unstakeRequests = [], lastMcrEth = 10 ^ 22,
       quotationAddress = ''0x0000000000000000000000000000000000000001'' \<rparr>
     ''00'' 1579586400000
     ''0x51042c4d8936a7764d18370a6a0762b860bb8e07'' ''1000'' ''ETH'' 100
   = Inl TypeError"
  using getQuote_signs_uncoverable
          [of "''0x51042c4d8936a7764d18370a6a0762b860bb8e07''" "''1000''" "''ETH''" 100 20
              "\<lparr> daiRate = 4291845493562231, tokenPrice = 10 ^ 16, stakedNxmBN = 0,
                 firstUnprocessedUnstakeAt = 0, unstakeRequests = [], lastMcrEth = 10 ^ 22,
                 quotationAddress = ''0x0000000000000000000000000000000000000001'' \<rparr>"
              "\<lparr> keccak256 = (\<lambda>b. replicate 32 0),
                 ecsign = (\<lambda>h k. (27, replicate 32 1, replicate 32 2)) \<rparr>"
              "''00''" 1579586400000]
        validate_example_ok getNetStakedNxm_zero_example
  by simp

subsection \<open>Signed integers\<close>

text \<open>
  Claim C10 does not hold of the code for a value of \<open>10^21\<close> or more: \<^verbatim>\<open>decimalToBN\<close>
  prints the floor with \<^verbatim>\<open>toString\<close>, which switches to exponential notation there,
  and \<^verbatim>\<open>bn.js\<close> does not read that text as the floor.  A cover of 1000 ETH for 365
  days on a contract with 200000 NXM of net stake, at a token price of 0.01 ETH,
  costs 1299.11 NXM, that is \<open>1299110198494182067100\<close> in the token's smallest unit:
  the amount, the period, the price and the two times are signed as their
  integers, the price in NXM is not.
\<close>

theorem signed_priceInNXM_not_floor:
  "orderParts
     \<lparr> quoteData =
         calculateQuote 20 (Fin 1000) 365 ''ETH'' (Fin (10 ^ 18)) (Fin (10 ^ 16))
           (Fin (200000 * 10 ^ 18)) (Fin (100000 * 10 ^ 18)) 1579586400000,
       contract = ca \<rparr> qa
   = Inr [ (SolBN (BN 1000), ''uint''),
           (SolText ''0x455448'', ''bytes4''),
           (SolBN (BN 365), ''uint16''),
           (SolText ca, ''address''),
           (SolBN (BN 12991101984941820671), ''uint''),
           (SolBN BNInvalid, ''uint''),
           (SolBN (BN 1579590000), ''uint''),
           (SolBN (BN 1579586400000), ''uint''),
           (SolText qa, ''address'') ]
   \<and> priceInNXM (calculateQuote 20 (Fin 1000) 365 ''ETH'' (Fin (10 ^ 18)) (Fin (10 ^ 16))
           (Fin (200000 * 10 ^ 18)) (Fin (100000 * 10 ^ 18)) 1579586400000)
       = Fin 1299110198494182067100"
  unfolding quote_example_3
  by (simp add: hex_example bn_of_number_def toExpPos_def)

subsection \<open>Signed message\<close>





end
